theory Spec2Isabelle
  imports Complex_Main "HOL-Library.Word" "HOL-Library.Log_Nat"
begin

section \<open>Images\<close>

text \<open>
  The camera delivers 8-bit images. A NumPy array of shape \<open>(h, w)\<close> is the list of its
  \<open>h\<close> rows, each a list of \<open>w\<close> pixels; a BGR frame of shape \<open>(h, w, 3)\<close> has a
  triple \<open>(b, g, r)\<close> at each position.
\<close>

type_synonym uint8 = "8 word"
type_synonym gray_image = "uint8 list list"
type_synonym bgr_image = "(uint8 \<times> uint8 \<times> uint8) list list"

definition shape :: "'a list list \<Rightarrow> nat list" where
  \<comment> \<open>the lengths of the rows: \<open>h\<close> times the number \<open>w\<close> for an array of shape \<open>(h, w)\<close>\<close>
  "shape m = map length m"

definition np_size :: "'a list list \<Rightarrow> nat" where
  \<comment> \<open>\<open>ndarray.size\<close> of a single-channel image: the number of its pixels\<close>
  "np_size m = length (concat m)"

definition count_nonzero :: "gray_image \<Rightarrow> nat" where
  \<comment> \<open>Modelled from the spec: the nonzero-pixel count of the array library\<close>
  "count_nonzero m = length (filter (\<lambda>v. v \<noteq> 0) (concat m))"

definition zeros_like :: "gray_image \<Rightarrow> gray_image" where
  \<comment> \<open>Modelled from the spec: an all-zero image of the same shape\<close>
  "zeros_like m = map (map (\<lambda>_. 0)) m"

section \<open>The image-processing primitives\<close>

text \<open>
  Modelled from the spec: the primitives of the external image-processing library
  (colour conversion, 2D convolution, absolute difference, fixed-threshold binarization)
  are not part of the repository. They are written here as the spec describes them and as
  the library documents them for 8-bit images; real-valued intermediate results are exact
  rationals.
\<close>

datatype error = SizeMismatch | ZeroDivisionError | OverflowError | AttributeError

definition gray_of :: "uint8 \<times> uint8 \<times> uint8 \<Rightarrow> uint8" where
  \<comment> \<open>luminance \<open>0.114 B + 0.587 G + 0.299 R\<close> in 15-bit fixed point, rounded\<close>
  "gray_of p = (case p of (b, g, r) \<Rightarrow>
     of_nat ((3735 * unat b + 19235 * unat g + 9798 * unat r + 16384) div 32768))"

definition cvtColor_BGR2GRAY :: "bgr_image \<Rightarrow> gray_image" where
  \<comment> \<open>Modelled from the spec: grayscale conversion, the standard luminance-weighted
      channel reduction, of every pixel\<close>
  "cvtColor_BGR2GRAY frame = map (map gray_of) frame"

definition border101 :: "nat \<Rightarrow> int \<Rightarrow> nat" where
  \<comment> \<open>the default border of the convolution: the image is mirrored at its edge pixels,
      which are not repeated (\<open>gfedcb|abcdefgh|gfedcba\<close>)\<close>
  "border101 len p =
     (if len \<le> 1 then 0
      else let period = 2 * (int len - 1); m = p mod period
           in nat (if m < int len then m else period - m))"

definition cvRound :: "rat \<Rightarrow> int" where
  \<comment> \<open>round to nearest, ties to even\<close>
  "cvRound x =
     (let f = \<lfloor>x\<rfloor>; d = x - of_int f
      in if d < 1 / 2 then f else if 1 / 2 < d then f + 1 else if even f then f else f + 1)"

definition saturate_cast :: "int \<Rightarrow> uint8" where
  "saturate_cast v = (if v < 0 then 0 else if 255 < v then 255 else word_of_int v)"

definition kernel_cols :: "rat list list \<Rightarrow> nat" where
  "kernel_cols k = (case k of [] \<Rightarrow> 0 | r # _ \<Rightarrow> length r)"

definition correlate :: "gray_image \<Rightarrow> rat list list \<Rightarrow> nat \<Rightarrow> nat \<Rightarrow> rat" where
  \<comment> \<open>the kernel laid over the image with its centre at row \<open>i\<close>, column \<open>j\<close>\<close>
  "correlate src k i j =
     (let h = length src; w = length (src ! i);
          kh = length k; kw = kernel_cols k
      in (\<Sum>a\<leftarrow>[0..<kh]. \<Sum>b\<leftarrow>[0..<kw].
            k ! a ! b *
            of_nat (unat (src ! border101 h (int i + int a - int (kh div 2))
                              ! border101 w (int j + int b - int (kw div 2))))))"

definition filter2D :: "gray_image \<Rightarrow> rat list list \<Rightarrow> gray_image" where
  \<comment> \<open>Modelled from the spec: 2D convolution with the given kernel under the primitive's
      default border, \<open>filter2D(src, -1, kernel)\<close>: the result has the depth of the source,
      the anchor is the kernel centre, each value is rounded and saturated to 8 bits\<close>
  "filter2D src k =
     map (\<lambda>i. map (\<lambda>j. saturate_cast (cvRound (correlate src k i j))) [0..<length (src ! i)])
         [0..<length src]"

definition absdiff_px :: "uint8 \<Rightarrow> uint8 \<Rightarrow> uint8" where
  "absdiff_px a b = (if b \<le> a then a - b else b - a)"

definition absdiff :: "gray_image \<Rightarrow> gray_image \<Rightarrow> error + gray_image" where
  \<comment> \<open>Modelled from the spec: pixel-wise absolute difference; the library raises an error
      when the two arrays do not have the same shape\<close>
  "absdiff x y =
     (if shape x = shape y then Inr (map2 (map2 absdiff_px) x y) else Inl SizeMismatch)"

definition threshold_BINARY :: "gray_image \<Rightarrow> uint8 \<Rightarrow> uint8 \<Rightarrow> gray_image" where
  \<comment> \<open>Modelled from the spec: fixed-threshold binarization,
      \<open>threshold(src, thresh, maxval, THRESH_BINARY)\<close>: \<open>maxval\<close> where the pixel exceeds
      \<open>thresh\<close>, else 0\<close>
  "threshold_BINARY src thresh maxval = map (map (\<lambda>v. if thresh < v then maxval else 0)) src"

section \<open>The capture device\<close>

text \<open>
  Modelled from the spec: the device abstraction (open, configure, read, release) is an
  external collaborator and the environment of the program. Its answers are scripted: \<open>opens\<close> holds
  the outcome of each coming attempt to open it, \<open>feed\<close> the images that the coming reads
  grab (an image without pixels is a grab that delivered nothing). \<open>trace\<close> records the
  operations requested from the device, oldest first.
\<close>

datatype cap_prop = CAP_PROP_FRAME_WIDTH | CAP_PROP_FRAME_HEIGHT

datatype event = DevOpen int | DevSet cap_prop int | DevRead | DevRelease

record world =
  opens :: "bool list"
  feed :: "bgr_image list"
  trace :: "event list"

record capture =
  cap_index :: int
  opened :: bool

definition VideoCapture :: "world \<Rightarrow> int \<Rightarrow> capture \<times> world" where
  "VideoCapture w idx =
     (case opens w of
        [] \<Rightarrow> (\<lparr>cap_index = idx, opened = False\<rparr>, w\<lparr>trace := trace w @ [DevOpen idx]\<rparr>)
      | ok # rest \<Rightarrow>
          (\<lparr>cap_index = idx, opened = ok\<rparr>,
           w\<lparr>opens := rest, trace := trace w @ [DevOpen idx]\<rparr>))"

definition cap_set :: "world \<Rightarrow> capture \<Rightarrow> cap_prop \<Rightarrow> int \<Rightarrow> world" where
  "cap_set w c p v = w\<lparr>trace := trace w @ [DevSet p v]\<rparr>"

definition isOpened :: "capture \<Rightarrow> bool" where
  "isOpened c = opened c"

definition cap_read :: "world \<Rightarrow> capture \<Rightarrow> bgr_image option \<times> world" where
  \<comment> \<open>\<open>(ret, frame)\<close>: \<open>Some frame\<close> is \<open>(True, frame)\<close>, \<open>None\<close> is \<open>(False, None)\<close>;
      \<open>ret\<close> is true exactly when an image with pixels was grabbed\<close>
  "cap_read w c =
     (if \<not> opened c then (None, w\<lparr>trace := trace w @ [DevRead]\<rparr>)
      else case feed w of
        [] \<Rightarrow> (None, w\<lparr>trace := trace w @ [DevRead]\<rparr>)
      | f # rest \<Rightarrow>
          (if concat f = [] then None else Some f,
           w\<lparr>feed := rest, trace := trace w @ [DevRead]\<rparr>))"

definition cap_release :: "world \<Rightarrow> capture \<Rightarrow> world" where
  "cap_release w c = w\<lparr>trace := trace w @ [DevRelease]\<rparr>"

section \<open>MotionCamera\<close>

text \<open>
  The fields of the class, with the smoothing kernel as a matrix of rationals. Each method
  takes the device and the object and returns them updated. A result is \<open>Inr\<close> of the
  returned value, or \<open>Inl\<close> of the error that the call raises. A Python float is the
  rational number that it holds.
\<close>

record motion_camera =
  camera_index :: int
  width :: int
  height :: int
  cap :: "capture option"
  last_frame :: "gray_image option"
  kernel :: "rat list list"

definition init :: "int \<Rightarrow> int \<Rightarrow> int \<Rightarrow> motion_camera" where
  \<comment> \<open>\<open>__init__(camera_index, width, height)\<close>; the defaults are 0, 640 and 480\<close>
  "init idx wd ht =
     \<lparr>camera_index = idx, width = wd, height = ht, cap = None, last_frame = None,
      kernel = replicate 3 (replicate 3 (1 / 9))\<rparr>"

definition start_capture :: "world \<Rightarrow> motion_camera \<Rightarrow> world \<times> motion_camera" where
  "start_capture w s =
     (case VideoCapture w (camera_index s) of (c, w1) \<Rightarrow>
        let w2 = cap_set w1 c CAP_PROP_FRAME_WIDTH (width s);
            w3 = cap_set w2 c CAP_PROP_FRAME_HEIGHT (height s)
        in (w3, s\<lparr>cap := Some c\<rparr>))"

definition stop_capture :: "world \<Rightarrow> motion_camera \<Rightarrow> world \<times> motion_camera" where
  \<comment> \<open>\<open>if self.cap:\<close> holds exactly when the handle is not \<open>None\<close>\<close>
  "stop_capture w s =
     (case cap s of
        Some c \<Rightarrow> (cap_release w c, s\<lparr>cap := None, last_frame := None\<rparr>)
      | None \<Rightarrow> (w, s\<lparr>last_frame := None\<rparr>))"

definition apply_kernel ::
  "motion_camera \<Rightarrow> bgr_image \<Rightarrow> rat list list option \<Rightarrow> gray_image" where
  "apply_kernel s frame kernel_arg =
     (let gray = cvtColor_BGR2GRAY frame;
          k = (case kernel_arg of Some k' \<Rightarrow> k' | None \<Rightarrow> kernel s)
      in filter2D gray k)"

type_synonym motion_result = "bgr_image option \<times> gray_image option \<times> rat"

definition needs_start :: "motion_camera \<Rightarrow> bool" where
  \<comment> \<open>\<open>self.cap is None or not self.cap.isOpened()\<close>\<close>
  "needs_start s = (case cap s of None \<Rightarrow> True | Some c \<Rightarrow> \<not> isOpened c)"

definition ilog2 :: "nat \<Rightarrow> nat \<Rightarrow> int" where
  \<comment> \<open>the binary exponent of the quotient of two positive integers:
      \<open>2 ^ ilog2 a b \<le> a / b < 2 ^ (ilog2 a b + 1)\<close>\<close>
  "ilog2 a b =
     (let d = int (floorlog 2 a) - int (floorlog 2 b)
      in if (of_nat b :: rat) * power_int 2 d \<le> of_nat a then d else d - 1)"

definition nearest_double :: "nat \<Rightarrow> nat \<Rightarrow> rat" where
  \<comment> \<open>the value of the IEEE 754 double nearest to \<open>a / b\<close>: the quotient rounded, ties to
      even, to a multiple of the spacing of the doubles at its size (53 significant bits,
      with the fixed spacing \<open>2 ^ -1074\<close> of the subnormal range)\<close>
  "nearest_double a b =
     (if a = 0 then 0
      else let k = max (ilog2 a b - 52) (- 1074)
           in of_int (cvRound (of_nat a / of_nat b / power_int 2 k)) * power_int 2 k)"

definition py_truediv :: "nat \<Rightarrow> nat \<Rightarrow> error + rat" where
  \<comment> \<open>Python's \<open>a / b\<close> on two non-negative integers: a float, the correctly rounded
      quotient; it raises on a zero divisor and on a quotient beyond the range of a float\<close>
  "py_truediv a b =
     (if b = 0 then Inl ZeroDivisionError
      else let r = nearest_double a b
           in if 2 ^ 1024 \<le> r then Inl OverflowError else Inr r)"

definition compare_frames ::
  "gray_image \<Rightarrow> gray_image option \<Rightarrow> error + gray_image \<times> rat" where
  \<comment> \<open>lines 61 to 67 of \<open>get_motion\<close>: the motion mask and the motion amount of a
      processed frame; the amount is the integer 0 or the float that the division gives\<close>
  "compare_frames processed prev =
     (let motion_frame = zeros_like processed; motion_amount = 0
      in case prev of
           None \<Rightarrow> Inr (motion_frame, motion_amount)
         | Some lf \<Rightarrow>
             (case absdiff processed lf of
                Inl e \<Rightarrow> Inl e
              | Inr diff \<Rightarrow>
                  let motion_frame = threshold_BINARY diff 30 255
                  in case py_truediv (count_nonzero motion_frame * 100)
                            (np_size motion_frame) of
                       Inl e \<Rightarrow> Inl e
                     | Inr motion_amount \<Rightarrow> Inr (motion_frame, motion_amount)))"

definition get_motion ::
  "world \<Rightarrow> motion_camera \<Rightarrow> (error + motion_result) \<times> world \<times> motion_camera" where
  \<comment> \<open>the returned triple \<open>(frame, motion_frame, motion_amount)\<close> or the error raised,
      with the device and the object as the call leaves them; a read on a missing handle
      would raise \<open>AttributeError\<close>\<close>
  "get_motion w s =
     (case (if needs_start s then start_capture w s else (w, s)) of (w1, s1) \<Rightarrow>
        case cap s1 of
          None \<Rightarrow> (Inl AttributeError, w1, s1)
        | Some c \<Rightarrow>
            (case cap_read w1 c of
               (None, w2) \<Rightarrow> (Inr (None, None, 0), w2, s1)
             | (Some frame, w2) \<Rightarrow>
                 let processed = apply_kernel s1 frame None
                 in case compare_frames processed (last_frame s1) of
                      Inl e \<Rightarrow> (Inl e, w2, s1)
                    | Inr (motion_frame, motion_amount) \<Rightarrow>
                        (Inr (Some frame, Some motion_frame, motion_amount),
                         w2, s1\<lparr>last_frame := Some processed\<rparr>)))"

section \<open>Vocabulary of the properties\<close>

definition started :: "world \<Rightarrow> motion_camera \<Rightarrow> world \<times> motion_camera" where
  \<comment> \<open>the device and the camera after lines 52 and 53 of \<open>get_motion\<close>\<close>
  "started w s = (if needs_start s then start_capture w s else (w, s))"

definition frame_read :: "world \<Rightarrow> motion_camera \<Rightarrow> bgr_image option" where
  \<comment> \<open>what the device read of the call \<open>get_motion w s\<close> (line 55) delivers:
      \<open>Some frame\<close> when it succeeds, \<open>None\<close> when it fails\<close>
  "frame_read w s =
     (case started w s of (w1, s1) \<Rightarrow>
        case cap s1 of None \<Rightarrow> None | Some c \<Rightarrow> fst (cap_read w1 c))"

definition all_zero :: "gray_image \<Rightarrow> bool" where
  "all_zero m = (\<forall>row \<in> set m. \<forall>v \<in> set row. v = 0)"

definition gray_frame :: "gray_image \<Rightarrow> bgr_image" where
  \<comment> \<open>a synthetic frame showing a grayscale picture: the three channels are equal\<close>
  "gray_frame m = map (map (\<lambda>v. (v, v, v))) m"

definition amount_of :: "error + motion_result \<Rightarrow> rat option" where
  "amount_of r = (case r of Inl e \<Rightarrow> None | Inr (fr, m, a) \<Rightarrow> Some a)"

definition device :: "bgr_image list \<Rightarrow> world" where
  \<comment> \<open>a device that opens once and then delivers the given frames\<close>
  "device fs = \<lparr>opens = [True], feed = fs, trace = []\<rparr>"

definition running :: "gray_image option \<Rightarrow> motion_camera" where
  \<comment> \<open>a camera with default configuration whose capture is open and whose previous-frame
      buffer holds the given value\<close>
  "running lf =
     \<lparr>camera_index = 0, width = 640, height = 480,
      cap = Some \<lparr>cap_index = 0, opened = True\<rparr>, last_frame = lf,
      kernel = replicate 3 (replicate 3 (1 / 9))\<rparr>"

definition capture_twice :: "bgr_image \<Rightarrow> bgr_image \<Rightarrow> error + motion_result" where
  \<comment> \<open>the end-to-end scenario: a new camera with default configuration captures the
      two frames one after the other; the outcome of the second \<open>get_motion\<close>\<close>
  "capture_twice f1 f2 =
     (case get_motion (device [f1, f2]) (init 0 640 480) of (r, w, s) \<Rightarrow> fst (get_motion w s))"

definition taps :: "nat \<Rightarrow> nat \<Rightarrow> nat \<Rightarrow> nat \<Rightarrow> (nat \<times> nat) list" where
  \<comment> \<open>the nine positions that the 3 by 3 kernel centred at row \<open>i\<close>, column \<open>j\<close> reads
      in an image of \<open>h\<close> rows and \<open>w\<close> columns\<close>
  "taps h w i j =
     concat (map (\<lambda>a. map (\<lambda>b. (border101 h (int i + a), border101 w (int j + b)))
                          [-1, 0, 1]) [-1, 0, 1])"

definition tap_sum :: "gray_image \<Rightarrow> nat \<Rightarrow> nat \<Rightarrow> nat" where
  \<comment> \<open>the sum of the nine pixels under the kernel\<close>
  "tap_sum src i j =
     (\<Sum>(y, x)\<leftarrow>taps (length src) (length (src ! i)) i j. unat (src ! y ! x))"

definition positions4 :: "(nat \<times> nat) list" where
  \<comment> \<open>the pixel positions (row, column) of a 4 by 4 image, in reading order\<close>
  "positions4 = concat (map (\<lambda>i. map (\<lambda>j. (i, j)) [0, 1, 2, 3]) [0, 1, 2, 3])"

definition heavy :: "nat \<times> nat \<Rightarrow> nat \<times> nat \<Rightarrow> (nat \<times> nat) list" where
  \<comment> \<open>the positions of a 4 by 4 image whose kernel window reads the pixels \<open>p\<close> and
      \<open>q\<close> at least six times in all\<close>
  "heavy p q =
     filter (\<lambda>(i, j). 6 \<le> length (filter (\<lambda>t. t = p \<or> t = q) (taps 4 4 i j))) positions4"

definition image4 :: "gray_image \<Rightarrow> bool" where
  \<comment> \<open>an image of shape (4, 4)\<close>
  "image4 g = (length g = 4 \<and> (\<forall>r \<in> set g. length r = 4))"

definition two_pixels_changed ::
  "gray_image \<Rightarrow> gray_image \<Rightarrow> nat \<times> nat \<Rightarrow> nat \<times> nat \<Rightarrow> bool" where
  \<comment> \<open>two 4 by 4 images that differ by 50 at the two positions \<open>p\<close> and \<open>q\<close> and are
      equal everywhere else\<close>
  "two_pixels_changed g1 g2 p q =
     (image4 g1 \<and> image4 g2 \<and> p \<in> set positions4 \<and> q \<in> set positions4 \<and> p \<noteq> q \<and>
      (\<forall>(i, j) \<in> set positions4. (i, j) \<noteq> p \<longrightarrow> (i, j) \<noteq> q \<longrightarrow> g2 ! i ! j = g1 ! i ! j) \<and>
      \<bar>uint (g2 ! fst p ! snd p) - uint (g1 ! fst p ! snd p)\<bar> = 50 \<and>
      \<bar>uint (g2 ! fst q ! snd q) - uint (g1 ! fst q ! snd q)\<bar> = 50)"

section \<open>Facts about the primitives\<close>

lemma count_nonzero_le_size: "count_nonzero m \<le> np_size m"
  by (simp add: count_nonzero_def np_size_def)

lemma np_size_shape: "np_size m = sum_list (shape m)"
  by (simp add: np_size_def shape_def length_concat)

lemma map_rows_nth: "map (\<lambda>i. f (xs ! i)) [0..<length xs] = map f xs"
  by (rule nth_equalityI) simp_all

lemma shape_filter2D: "shape (filter2D src k) = shape src"
  by (simp add: shape_def filter2D_def comp_def map_rows_nth)

lemma shape_cvtColor: "shape (cvtColor_BGR2GRAY frame) = shape frame"
  by (simp add: shape_def cvtColor_BGR2GRAY_def comp_def)

lemma shape_apply_kernel: "shape (apply_kernel s frame k) = shape frame"
  by (simp add: apply_kernel_def Let_def shape_filter2D shape_cvtColor)

lemma shape_zeros_like: "shape (zeros_like m) = shape m"
  by (simp add: shape_def zeros_like_def comp_def)

lemma all_zero_zeros_like: "all_zero (zeros_like m)"
  by (auto simp: all_zero_def zeros_like_def)

lemma shape_threshold: "shape (threshold_BINARY m t v) = shape m"
  by (simp add: shape_def threshold_BINARY_def comp_def)

lemma shape_map2_rows:
  "map length x = map length y \<Longrightarrow> map length (map2 (map2 f) x y) = map length x"
proof (induction x arbitrary: y)
  case Nil
  then show ?case by simp
next
  case (Cons r x)
  then show ?case by (cases y) simp_all
qed

lemma absdiff_same_shape:
  "shape x = shape y \<Longrightarrow> \<exists>d. absdiff x y = Inr d \<and> shape d = shape x"
  using shape_map2_rows [of x y absdiff_px] by (simp add: absdiff_def shape_def)

lemma absdiff_other_shape: "shape x \<noteq> shape y \<Longrightarrow> absdiff x y = Inl SizeMismatch"
  by (simp add: absdiff_def)

lemma count_nonzero_all_zero: "all_zero m \<Longrightarrow> count_nonzero m = 0"
  by (auto simp: all_zero_def count_nonzero_def filter_empty_conv)

lemma map2_absdiff_self: "map2 absdiff_px r r = map (\<lambda>_. 0) r"
  by (induction r) (simp_all add: absdiff_px_def)

lemma absdiff_self: "absdiff x x = Inr (zeros_like x)"
proof -
  have "map2 (map2 absdiff_px) x x = map (map (\<lambda>_. 0)) x"
    by (induction x) (simp_all add: map2_absdiff_self)
  then show ?thesis by (simp add: absdiff_def zeros_like_def)
qed

lemma threshold_zeros: "threshold_BINARY (zeros_like m) 30 255 = zeros_like m"
  by (simp add: threshold_BINARY_def zeros_like_def comp_def)

section \<open>Float division\<close>

lemma cvRound_le: "y \<le> of_int N \<Longrightarrow> cvRound y \<le> N"
proof -
  assume a: "y \<le> of_int N"
  have f: "of_int \<lfloor>y\<rfloor> \<le> y" "y < of_int \<lfloor>y\<rfloor> + 1" by linarith+
  from a f have "of_int \<lfloor>y\<rfloor> \<le> (of_int N :: rat)" by linarith
  then have le: "\<lfloor>y\<rfloor> \<le> N" by (simp only: of_int_le_iff)
  show ?thesis
  proof (cases "\<lfloor>y\<rfloor> = N")
    case True
    with a f have "y - of_int \<lfloor>y\<rfloor> = 0" by simp
    then show ?thesis using True by (simp add: cvRound_def Let_def)
  next
    case False
    with le have "\<lfloor>y\<rfloor> + 1 \<le> N" by simp
    with le show ?thesis by (simp add: cvRound_def Let_def)
  qed
qed

lemma cvRound_ge: "of_int N \<le> y \<Longrightarrow> N \<le> cvRound y"
proof -
  assume "of_int N \<le> y"
  then have "N \<le> \<lfloor>y\<rfloor>" by (simp add: le_floor_iff)
  then show ?thesis by (simp add: cvRound_def Let_def)
qed

lemma cvRound_of_int: "cvRound (of_int n) = n"
  using cvRound_le [of "of_int n" n] cvRound_ge [of n "of_int n"] by simp


lemma floorlog_rat:
  assumes "0 < n"
  shows "power_int 2 (int (floorlog 2 n) - 1) \<le> (of_nat n :: rat)"
    and "(of_nat n :: rat) < power_int 2 (int (floorlog 2 n))"
proof -
  from floorlog_bounds [of n 2] assms
  have b: "2 ^ (floorlog 2 n - 1) \<le> n" "n < 2 ^ floorlog 2 n" by simp_all
  from assms have pos: "0 < floorlog 2 n" by (simp add: floorlog_def)
  then have e: "int (floorlog 2 n) - 1 = int (floorlog 2 n - 1)" by simp
  have "(of_nat (2 ^ (floorlog 2 n - 1)) :: rat) \<le> of_nat n"
    using b(1) by (simp only: of_nat_le_iff)
  then show "power_int 2 (int (floorlog 2 n) - 1) \<le> (of_nat n :: rat)"
    unfolding e by simp
  have "(of_nat n :: rat) < of_nat (2 ^ floorlog 2 n)"
    using b(2) by (simp only: of_nat_less_iff)
  then show "(of_nat n :: rat) < power_int 2 (int (floorlog 2 n))" by simp
qed

lemma ilog2_bounds:
  assumes "0 < a" and "0 < b"
  shows "power_int 2 (ilog2 a b) \<le> (of_nat a / of_nat b :: rat)"
    and "(of_nat a / of_nat b :: rat) < power_int 2 (ilog2 a b + 1)"
proof -
  let ?A = "of_nat a :: rat" and ?B = "of_nat b :: rat"
  let ?la = "int (floorlog 2 a)" and ?lb = "int (floorlog 2 b)"
  let ?d = "?la - ?lb"
  have B: "0 < ?B" using assms by simp
  note fa = floorlog_rat [OF assms(1)] and fb = floorlog_rat [OF assms(2)]
  have up: "?A < power_int 2 (?d + 1) * ?B"
  proof -
    have "?A < power_int 2 ?la" by (rule fa(2))
    also have "\<dots> = power_int 2 ((?d + 1) + (?lb - 1))" by simp
    also have "\<dots> = power_int 2 (?d + 1) * power_int 2 (?lb - 1)"
      by (rule power_int_add) simp
    also have "\<dots> \<le> power_int 2 (?d + 1) * ?B"
      by (rule mult_left_mono [OF fb(1)]) simp
    finally show ?thesis .
  qed
  have lo: "power_int 2 (?d - 1) * ?B \<le> ?A"
  proof -
    have "power_int 2 (?d - 1) * ?B \<le> power_int 2 (?d - 1) * power_int 2 ?lb"
      by (rule mult_left_mono [OF less_imp_le [OF fb(2)]]) simp
    also have "\<dots> = power_int 2 ((?d - 1) + ?lb)"
      by (rule power_int_add [symmetric]) simp
    also have "\<dots> = power_int 2 (?la - 1)" by simp
    also have "\<dots> \<le> ?A" by (rule fa(1))
    finally show ?thesis .
  qed
  show "power_int 2 (ilog2 a b) \<le> ?A / ?B"
  proof (cases "?B * power_int 2 ?d \<le> ?A")
    case True
    then have "ilog2 a b = ?d" by (simp add: ilog2_def Let_def)
    with True B show ?thesis by (simp add: pos_le_divide_eq mult.commute)
  next
    case False
    then have "ilog2 a b = ?d - 1" by (simp add: ilog2_def Let_def)
    with lo B show ?thesis by (simp add: pos_le_divide_eq)
  qed
  show "?A / ?B < power_int 2 (ilog2 a b + 1)"
  proof (cases "?B * power_int 2 ?d \<le> ?A")
    case True
    then have "ilog2 a b = ?d" by (simp add: ilog2_def Let_def)
    with up B show ?thesis by (simp add: pos_divide_less_eq)
  next
    case False
    then have "ilog2 a b = ?d - 1" by (simp add: ilog2_def Let_def)
    with False B show ?thesis by (simp add: pos_divide_less_eq mult.commute)
  qed
qed


lemma power_int_2_neg: "k \<le> 0 \<Longrightarrow> power_int (2 :: rat) k = 1 / 2 ^ nat (- k)"
  by (simp add: power_int_def field_simps)

lemma power_int_2_le_D:
  assumes "power_int (2 :: rat) m \<le> x" and "x < power_int 2 n"
  shows "m < n"
proof (rule ccontr)
  assume "\<not> m < n"
  then have "n \<le> m" by simp
  then have "power_int (2 :: rat) n \<le> power_int 2 m" by (rule power_int_increasing) simp
  with assms show False by simp
qed

lemma nearest_double_range:
  assumes "0 < b" and "a \<le> 100 * b"
  shows "0 \<le> nearest_double a b" and "nearest_double a b \<le> 100"
proof -
  let ?x = "of_nat a / of_nat b :: rat"
  let ?k = "max (ilog2 a b - 52) (- 1074)"
  let ?n = "nat (- ?k)"
  have B: "0 < (of_nat b :: rat)" using assms(1) by simp
  have "(of_nat a :: rat) \<le> of_nat (100 * b)" using assms(2) by (simp only: of_nat_le_iff)
  then have x100: "?x \<le> 100" using B by (simp add: pos_divide_le_eq)
  have x0: "0 \<le> ?x" by simp
  have both: "0 \<le> nearest_double a b \<and> nearest_double a b \<le> 100"
  proof (cases "a = 0")
    case True
    then show ?thesis by (simp add: nearest_double_def)
  next
    case False
    then have a: "0 < a" by simp
    have "ilog2 a b < 7"
    proof (rule power_int_2_le_D)
      show "power_int 2 (ilog2 a b) \<le> ?x" by (rule ilog2_bounds(1) [OF a assms(1)])
      show "?x < power_int 2 7" using x100 by simp
    qed
    then have k: "?k \<le> 0" by simp
    have pk: "power_int (2 :: rat) ?k = 1 / 2 ^ ?n" by (rule power_int_2_neg [OF k])
    have y: "?x / power_int 2 ?k = ?x * 2 ^ ?n" by (simp add: pk)
    have "?x * 2 ^ ?n \<le> 100 * 2 ^ ?n" by (rule mult_right_mono [OF x100]) simp
    then have "?x * 2 ^ ?n \<le> of_int (100 * 2 ^ ?n)" by simp
    then have "?x / power_int 2 ?k \<le> of_int (100 * 2 ^ ?n)" by (simp only: y)
    then have c1: "cvRound (?x / power_int 2 ?k) \<le> 100 * 2 ^ ?n" by (rule cvRound_le)
    have "of_int 0 \<le> ?x * 2 ^ ?n" using x0 by simp
    then have "of_int 0 \<le> ?x / power_int 2 ?k" by (simp only: y)
    then have c0: "0 \<le> cvRound (?x / power_int 2 ?k)" by (rule cvRound_ge)
    have nd: "nearest_double a b = of_int (cvRound (?x / power_int 2 ?k)) / 2 ^ ?n"
      using False by (simp add: nearest_double_def Let_def pk)
    have "(of_int (cvRound (?x / power_int 2 ?k)) :: rat) \<le> of_int (100 * 2 ^ ?n)"
      using c1 by (simp only: of_int_le_iff)
    then have "(of_int (cvRound (?x / power_int 2 ?k)) :: rat) / 2 ^ ?n \<le> 100"
      by (simp add: pos_divide_le_eq)
    moreover have "0 \<le> (of_int (cvRound (?x / power_int 2 ?k)) :: rat) / 2 ^ ?n"
      using c0 by simp
    ultimately show ?thesis by (simp only: nd)
  qed
  from both show "0 \<le> nearest_double a b" and "nearest_double a b \<le> 100" by simp_all
qed


lemma nearest_double_exact:
  assumes "0 < a" and "0 < b"
    and x: "(of_nat a / of_nat b :: rat) = of_int m * power_int 2 j"
    and m: "m < 2 ^ 53" and j: "- 1074 \<le> j"
  shows "nearest_double a b = of_nat a / of_nat b"
proof -
  let ?x = "of_nat a / of_nat b :: rat"
  let ?k = "max (ilog2 a b - 52) (- 1074)"
  have "ilog2 a b < 53 + j"
  proof (rule power_int_2_le_D)
    show "power_int 2 (ilog2 a b) \<le> ?x" by (rule ilog2_bounds(1) [OF assms(1,2)])
    have "(of_int m :: rat) < of_int (2 ^ 53)" using m by (simp only: of_int_less_iff)
    then have "of_int m * power_int (2 :: rat) j < 2 ^ 53 * power_int 2 j"
      by (intro mult_strict_right_mono) simp_all
    also have "\<dots> = power_int 2 (53 + j)"
      by (subst power_int_add) simp_all
    finally show "?x < power_int 2 (53 + j)" by (simp only: x)
  qed
  with j have kj: "?k \<le> j" by simp
  have pj: "power_int (2 :: rat) j = power_int 2 (j - ?k) * power_int 2 ?k"
  proof -
    have "power_int (2 :: rat) j = power_int 2 ((j - ?k) + ?k)" by simp
    also have "\<dots> = power_int 2 (j - ?k) * power_int 2 ?k" by (rule power_int_add) simp
    finally show ?thesis .
  qed
  have pn: "power_int (2 :: rat) (j - ?k) = 2 ^ nat (j - ?k)"
    using kj by (simp add: power_int_def)
  have "?x / power_int 2 ?k = of_int m * 2 ^ nat (j - ?k)"
    by (simp only: x pj pn) simp
  then have y: "?x / power_int 2 ?k = of_int (m * 2 ^ nat (j - ?k))" by simp
  have "nearest_double a b = of_int (cvRound (?x / power_int 2 ?k)) * power_int 2 ?k"
    using assms(1) by (simp add: nearest_double_def Let_def)
  also have "\<dots> = of_int (m * 2 ^ nat (j - ?k)) * power_int 2 ?k"
    by (simp only: y cvRound_of_int)
  also have "\<dots> = of_int m * (power_int 2 (j - ?k) * power_int 2 ?k)"
    by (simp add: pn)
  also have "\<dots> = ?x" by (simp only: pj [symmetric] x)
  finally show ?thesis .
qed

lemma nearest_double_zero: "nearest_double 0 b = 0"
  by (simp add: nearest_double_def)


lemma nearest_double_pow2:
  assumes "a < 2 ^ 53" and "j \<le> 1074"
  shows "nearest_double a (2 ^ j) = of_nat a / 2 ^ j"
proof (cases "a = 0")
  case True
  then show ?thesis by (simp add: nearest_double_zero)
next
  case False
  then have a: "0 < a" by simp
  have b: "0 < (2 :: nat) ^ j" by simp
  have "power_int (2 :: rat) (- int j) = 1 / 2 ^ nat (- (- int j))"
    by (rule power_int_2_neg) simp
  then have x: "(of_nat a / of_nat (2 ^ j) :: rat) = of_int (int a) * power_int 2 (- int j)"
    by simp
  have m: "int a < 2 ^ 53" using assms(1) by (simp flip: of_nat_less_iff)
  have "nearest_double a (2 ^ j) = of_nat a / of_nat (2 ^ j)"
    by (rule nearest_double_exact [OF a b x m]) (use assms(2) in simp)
  then show ?thesis by simp
qed

lemma py_truediv_ok:
  assumes "0 < b" and "a \<le> 100 * b"
  shows "py_truediv a b = Inr (nearest_double a b)"
proof -
  have "nearest_double a b \<le> 100" by (rule nearest_double_range(2) [OF assms])
  also have "(100 :: rat) < 2 ^ 7" by simp
  also have "(2 :: rat) ^ 7 \<le> 2 ^ 1024" by (rule power_increasing) simp_all
  finally have "\<not> 2 ^ 1024 \<le> nearest_double a b" by simp
  with assms(1) show ?thesis by (simp add: py_truediv_def Let_def)
qed

lemma nearest_double_values:
  "nearest_double 100 2 = 50"
  "nearest_double 100 16 = 25 / 4"
  "nearest_double 100 3 = 4691249611844267 / 140737488355328"
  by code_simp+

lemma py_truediv_values:
  "py_truediv 0 16 = Inr 0"
  "py_truediv 100 2 = Inr 50"
  "py_truediv 100 16 = Inr (25 / 4)"
  "py_truediv 100 3 = Inr (4691249611844267 / 140737488355328)"
  by (simp_all add: py_truediv_ok nearest_double_values nearest_double_zero)

section \<open>Facts about \<open>get_motion\<close>\<close>

lemma started_cap: "\<exists>c. cap (snd (started w s)) = Some c"
  by (auto simp: started_def needs_start_def start_capture_def Let_def split: option.splits prod.splits)

lemma started_fields:
  "last_frame (snd (started w s)) = last_frame s"
  "kernel (snd (started w s)) = kernel s"
  "camera_index (snd (started w s)) = camera_index s"
  "width (snd (started w s)) = width s"
  "height (snd (started w s)) = height s"
  by (auto simp: started_def start_capture_def Let_def split: prod.splits)

lemma apply_kernel_started: "apply_kernel (snd (started w s)) frame k = apply_kernel s frame k"
  by (cases k) (simp_all add: apply_kernel_def started_fields(2))

lemma frame_read_nonempty: "frame_read w s = Some frame \<Longrightarrow> 0 < np_size frame"
  by (auto simp: frame_read_def cap_read_def np_size_def split: prod.splits option.splits if_splits list.splits)

lemma np_size_apply_kernel: "np_size (apply_kernel s frame k) = np_size frame"
  by (simp add: np_size_shape shape_apply_kernel)

lemma compare_frames_None: "compare_frames p None = Inr (zeros_like p, 0)"
  by (simp add: compare_frames_def)

lemma compare_frames_other_shape:
  "shape p \<noteq> shape lf \<Longrightarrow> compare_frames p (Some lf) = Inl SizeMismatch"
  by (simp add: compare_frames_def absdiff_other_shape)

lemma compare_frames_same_shape:
  assumes "shape p = shape lf" and "0 < np_size p"
  shows "\<exists>mask. compare_frames p (Some lf) =
           Inr (mask, nearest_double (count_nonzero mask * 100) (np_size mask)) \<and>
         mask = threshold_BINARY (map2 (map2 absdiff_px) p lf) 30 255 \<and>
         shape mask = shape p"
proof -
  from assms(1) obtain d where d: "absdiff p lf = Inr d" "shape d = shape p"
    using absdiff_same_shape by blast
  from d(1) assms(1) have d_eq: "d = map2 (map2 absdiff_px) p lf"
    by (simp add: absdiff_def)
  let ?m = "threshold_BINARY d 30 255"
  have "np_size ?m = np_size p"
    by (simp add: np_size_shape shape_threshold d(2))
  with assms(2) have pos: "0 < np_size ?m" by simp
  have "count_nonzero ?m * 100 \<le> 100 * np_size ?m"
    using count_nonzero_le_size [of ?m] by simp
  with pos have "py_truediv (count_nonzero ?m * 100) (np_size ?m) =
      Inr (nearest_double (count_nonzero ?m * 100) (np_size ?m))"
    by (rule py_truediv_ok)
  with d show ?thesis
    by (simp add: compare_frames_def Let_def shape_threshold d_eq)
qed

lemma compare_frames_eval:
  assumes "absdiff p lf = Inr d" and "threshold_BINARY d 30 255 = m"
    and "count_nonzero m * 100 = a" and "np_size m = b" and "py_truediv a b = Inr r"
  shows "compare_frames p (Some lf) = Inr (m, r)"
  using assms by (simp add: compare_frames_def Let_def)

lemma get_motion_started:
  "get_motion w s =
     (case started w s of (w1, s1) \<Rightarrow>
        case cap s1 of
          None \<Rightarrow> (Inl AttributeError, w1, s1)
        | Some c \<Rightarrow>
            (case cap_read w1 c of
               (None, w2) \<Rightarrow> (Inr (None, None, 0), w2, s1)
             | (Some frame, w2) \<Rightarrow>
                 let processed = apply_kernel s1 frame None
                 in case compare_frames processed (last_frame s1) of
                      Inl e \<Rightarrow> (Inl e, w2, s1)
                    | Inr (motion_frame, motion_amount) \<Rightarrow>
                        (Inr (Some frame, Some motion_frame, motion_amount),
                         w2, s1\<lparr>last_frame := Some processed\<rparr>)))"
  by (simp add: get_motion_def started_def)

lemma get_motion_read_fails:
  assumes "frame_read w s = None"
  shows "fst (get_motion w s) = Inr (None, None, 0)"
    and "snd (snd (get_motion w s)) = snd (started w s)"
proof -
  obtain w1 s1 where st: "started w s = (w1, s1)" by fastforce
  obtain c where c: "cap s1 = Some c" using started_cap [of w s] st by auto
  obtain r w2 where rd: "cap_read w1 c = (r, w2)" by fastforce
  from assms st c rd have r: "r = None" by (simp add: frame_read_def)
  show "fst (get_motion w s) = Inr (None, None, 0)"
    by (simp add: get_motion_started st c rd r)
  show "snd (snd (get_motion w s)) = snd (started w s)"
    by (simp add: get_motion_started st c rd r)
qed

lemma get_motion_read_ok:
  assumes "frame_read w s = Some frame"
  shows "fst (get_motion w s) =
           (case compare_frames (apply_kernel s frame None) (last_frame s) of
              Inl e \<Rightarrow> Inl e
            | Inr (m, a) \<Rightarrow> Inr (Some frame, Some m, a))"
    and "snd (snd (get_motion w s)) =
           (case compare_frames (apply_kernel s frame None) (last_frame s) of
              Inl e \<Rightarrow> snd (started w s)
            | Inr r \<Rightarrow> (snd (started w s))\<lparr>last_frame := Some (apply_kernel s frame None)\<rparr>)"
proof -
  obtain w1 s1 where st: "started w s = (w1, s1)" by fastforce
  obtain c where c: "cap s1 = Some c" using started_cap [of w s] st by auto
  obtain r w2 where rd: "cap_read w1 c = (r, w2)" by fastforce
  from assms st c rd have r: "r = Some frame" by (simp add: frame_read_def)
  have lf: "last_frame s1 = last_frame s" using started_fields(1) [of w s] st by simp
  have ak: "apply_kernel s1 frame None = apply_kernel s frame None"
    using apply_kernel_started [of w s frame None] st by simp
  show "fst (get_motion w s) =
           (case compare_frames (apply_kernel s frame None) (last_frame s) of
              Inl e \<Rightarrow> Inl e
            | Inr (m, a) \<Rightarrow> Inr (Some frame, Some m, a))"
    by (simp add: get_motion_started st c rd r lf ak Let_def split: sum.splits prod.splits)
  show "snd (snd (get_motion w s)) =
           (case compare_frames (apply_kernel s frame None) (last_frame s) of
              Inl e \<Rightarrow> snd (started w s)
            | Inr r \<Rightarrow> (snd (started w s))\<lparr>last_frame := Some (apply_kernel s frame None)\<rparr>)"
    by (simp add: get_motion_started st c rd r lf ak Let_def split: sum.splits prod.splits)
qed


section \<open>Evaluating the pipeline on concrete frames\<close>

lemma cvRound_of_int_div:
  assumes "0 < b"
  shows "cvRound (of_int a / of_int b) =
           (if 2 * (a mod b) < b then a div b
            else if b < 2 * (a mod b) then a div b + 1
            else if even (a div b) then a div b else a div b + 1)"
proof -
  have fl: "\<lfloor>(of_int a / of_int b :: rat)\<rfloor> = a div b"
    by (rule floor_divide_of_int_eq)
  have "(of_int a :: rat) = of_int b * of_int (a div b) + of_int (a mod b)"
    by (metis mult_div_mod_eq of_int_add of_int_mult)
  then have "(of_int a / of_int b :: rat) = of_int (a div b) + of_int (a mod b) / of_int b"
    using assms by (simp add: field_simps)
  then have d: "(of_int a / of_int b :: rat) - of_int (a div b) = of_int (a mod b) / of_int b"
    by simp
  have lt: "(of_int (a mod b) / of_int b < (1 / 2 :: rat)) = (2 * (a mod b) < b)"
  proof -
    have "(of_int (a mod b) / of_int b < (1 / 2 :: rat)) = ((of_int (2 * (a mod b)) :: rat) < of_int b)"
      using assms by (simp add: field_simps)
    also have "\<dots> = (2 * (a mod b) < b)" by (rule of_int_less_iff)
    finally show ?thesis .
  qed
  have gt: "((1 / 2 :: rat) < of_int (a mod b) / of_int b) = (b < 2 * (a mod b))"
  proof -
    have "((1 / 2 :: rat) < of_int (a mod b) / of_int b) = ((of_int b :: rat) < of_int (2 * (a mod b)))"
      using assms by (simp add: field_simps)
    also have "\<dots> = (b < 2 * (a mod b))" by (rule of_int_less_iff)
    finally show ?thesis .
  qed
  show ?thesis
    unfolding cvRound_def Let_def fl d lt gt by simp
qed

lemma cvRound_numeral_div:
  "cvRound (numeral a / numeral b) =
     (if 2 * (numeral a mod numeral b) < (numeral b :: int) then numeral a div numeral b
      else if (numeral b :: int) < 2 * (numeral a mod numeral b) then numeral a div numeral b + 1
      else if even (numeral a div numeral b :: int) then numeral a div numeral b
      else numeral a div numeral b + 1)"
  using cvRound_of_int_div [of "numeral b" "numeral a"] by simp

lemma cvRound_numeral: "cvRound (numeral a) = numeral a"
  by (simp add: cvRound_def Let_def)

lemma box_kernel:
  "replicate 3 (replicate 3 (1 / 9 :: rat)) =
     [[1 / 9, 1 / 9, 1 / 9], [1 / 9, 1 / 9, 1 / 9], [1 / 9, 1 / 9, 1 / 9]]"
  by (simp add: numeral_3_eq_3)

lemmas pipeline_eval =
  apply_kernel_def gray_frame_def cvtColor_BGR2GRAY_def gray_of_def filter2D_def
  correlate_def box_kernel Let_def kernel_cols_def border101_def upt_rec_numeral
  cvRound_numeral_div cvRound_numeral saturate_cast_def

lemma frame_read_running:
  "frame_read (device (f # fs)) (running lf) = (if concat f = [] then None else Some f)"
  by (simp add: frame_read_def started_def needs_start_def running_def isOpened_def
      cap_read_def device_def)

lemma frame_read_running_empty: "frame_read (device []) (running lf) = None"
  by (simp add: frame_read_def started_def needs_start_def running_def isOpened_def
      cap_read_def device_def)

lemma frame_read_init:
  "frame_read (device (f # fs)) (init idx wd ht) = (if concat f = [] then None else Some f)"
  by (simp add: frame_read_def started_def needs_start_def init_def start_capture_def
      VideoCapture_def cap_set_def cap_read_def device_def Let_def)


lemma compare_frames_self:
  assumes "0 < np_size p"
  shows "compare_frames p (Some p) = Inr (zeros_like p, 0)"
proof -
  have "np_size (zeros_like p) = np_size p"
    by (simp add: np_size_shape shape_zeros_like)
  with assms have "py_truediv 0 (np_size (zeros_like p)) = Inr 0"
    by (simp add: py_truediv_ok nearest_double_zero)
  then show ?thesis
    by (simp add: compare_frames_def absdiff_self threshold_zeros Let_def
        count_nonzero_all_zero [OF all_zero_zeros_like])
qed

lemma no_previous_frame:
  "last_frame (init idx wd ht) = None"
  "last_frame (snd (stop_capture w s)) = None"
  "last_frame (snd (start_capture w' (snd (stop_capture w s)))) = None"
  by (simp_all add: init_def stop_capture_def start_capture_def Let_def
      split: option.splits prod.splits)

lemma processed_132_129:
  "apply_kernel (running lf) (gray_frame [[132, 129]]) None = [[130, 131]]"
  by (simp add: pipeline_eval running_def)

lemma apply_kernel_box_1x1:
  "kernel s = replicate 3 (replicate 3 (1 / 9)) \<Longrightarrow>
   apply_kernel s (gray_frame [[7]]) None = [[7]]"
  by (simp add: pipeline_eval)

lemma first_capture_1x1:
  "get_motion (device [gray_frame [[7]], gray_frame [[7]]]) (init 0 640 480) =
     (Inr (Some (gray_frame [[7]]), Some [[0]], 0),
      \<lparr>opens = [], feed = [gray_frame [[7]]],
       trace = [DevOpen 0, DevSet CAP_PROP_FRAME_WIDTH 640,
                DevSet CAP_PROP_FRAME_HEIGHT 480, DevRead]\<rparr>,
      running (Some [[7]]))"
proof -
  have "apply_kernel (init 0 640 480\<lparr>cap := Some \<lparr>cap_index = 0, opened = True\<rparr>\<rparr>)
          (gray_frame [[7]]) None = [[7]]"
    by (rule apply_kernel_box_1x1) (simp add: init_def)
  then show ?thesis
    by (simp add: get_motion_def needs_start_def start_capture_def VideoCapture_def
        cap_set_def cap_read_def device_def compare_frames_def zeros_like_def Let_def)
      (simp add: init_def running_def gray_frame_def)
qed

lemma trace_cap_read: "trace (snd (cap_read w c)) = trace w @ [DevRead]"
  by (simp add: cap_read_def split: list.splits)

lemma start_capture_eq:
  "start_capture w s =
     (w\<lparr>opens := tl (opens w),
        trace := trace w @ [DevOpen (camera_index s),
                            DevSet CAP_PROP_FRAME_WIDTH (width s),
                            DevSet CAP_PROP_FRAME_HEIGHT (height s)]\<rparr>,
      s\<lparr>cap := Some \<lparr>cap_index = camera_index s,
                       opened = (case opens w of [] \<Rightarrow> False | ok # _ \<Rightarrow> ok)\<rparr>\<rparr>)"
  by (simp add: start_capture_def VideoCapture_def cap_set_def Let_def split: list.splits)

lemma get_motion_world:
  "trace (fst (snd (get_motion w s))) = trace (fst (started w s)) @ [DevRead]"
proof -
  obtain w1 s1 where st: "started w s = (w1, s1)" by fastforce
  obtain c where c: "cap s1 = Some c" using started_cap [of w s] st by auto
  obtain r w2 where rd: "cap_read w1 c = (r, w2)" by fastforce
  have "trace w2 = trace w1 @ [DevRead]" using trace_cap_read [of w1 c] rd by simp
  then show ?thesis
    by (cases r) (simp_all add: get_motion_started st c rd Let_def split: sum.splits prod.splits)
qed

lemma get_motion_cap:
  "cap (snd (snd (get_motion w s))) = cap (snd (started w s))"
proof -
  obtain w1 s1 where st: "started w s = (w1, s1)" by fastforce
  obtain c where c: "cap s1 = Some c" using started_cap [of w s] st by auto
  obtain r w2 where rd: "cap_read w1 c = (r, w2)" by fastforce
  show ?thesis
    by (cases r) (simp_all add: get_motion_started st c rd Let_def split: sum.splits prod.splits)
qed

lemma get_motion_no_attribute_error: "fst (get_motion w s) \<noteq> Inl AttributeError"
proof (cases "frame_read w s")
  case None
  then show ?thesis by (simp add: get_motion_read_fails(1))
next
  case (Some frame)
  show ?thesis
  proof (cases "last_frame s")
    case None
    then show ?thesis by (simp add: get_motion_read_ok(1) [OF Some] compare_frames_None)
  next
    case prev: (Some prev)
    show ?thesis
    proof (cases "shape (apply_kernel s frame None) = shape prev")
      case True
      have pos: "0 < np_size (apply_kernel s frame None)"
        using frame_read_nonempty [OF Some] by (simp add: np_size_apply_kernel)
      from compare_frames_same_shape [OF True pos] show ?thesis
        by (auto simp: get_motion_read_ok(1) [OF Some] prev)
    next
      case False
      then show ?thesis
        by (simp add: get_motion_read_ok(1) [OF Some] prev compare_frames_other_shape)
    qed
  qed
qed

lemma get_motion_no_previous:
  assumes "last_frame s = None"
  shows "\<exists>fr m. fst (get_motion w s) = Inr (fr, m, 0)"
proof (cases "frame_read w s")
  case None
  then show ?thesis by (simp add: get_motion_read_fails(1))
next
  case (Some frame)
  then show ?thesis by (simp add: get_motion_read_ok(1) assms compare_frames_None)
qed

lemma get_motion_after_failure:
  assumes "frame_read w s = None" and "snd (get_motion w s) = (w', s')"
  shows "last_frame s' = last_frame s" and "kernel s' = kernel s"
proof -
  from assms(2) have "s' = snd (snd (get_motion w s))" by simp
  then have s': "s' = snd (started w s)" by (simp add: get_motion_read_fails(2) [OF assms(1)])
  show "last_frame s' = last_frame s" by (simp add: s' started_fields(1))
  show "kernel s' = kernel s" by (simp add: s' started_fields(2))
qed

lemma first_capture_7:
  "get_motion (device (gray_frame [[7]] # fs)) (init 0 640 480) =
     (Inr (Some (gray_frame [[7]]), Some [[0]], 0),
      \<lparr>opens = [], feed = fs,
       trace = [DevOpen 0, DevSet CAP_PROP_FRAME_WIDTH 640,
                DevSet CAP_PROP_FRAME_HEIGHT 480, DevRead]\<rparr>,
      running (Some [[7]]))"
proof -
  have "apply_kernel (init 0 640 480\<lparr>cap := Some \<lparr>cap_index = 0, opened = True\<rparr>\<rparr>)
          (gray_frame [[7]]) None = [[7]]"
    by (rule apply_kernel_box_1x1) (simp add: init_def)
  then show ?thesis
    by (simp add: get_motion_def needs_start_def start_capture_def VideoCapture_def
        cap_set_def cap_read_def device_def compare_frames_def zeros_like_def Let_def)
      (simp add: init_def running_def gray_frame_def)
qed

lemma failed_capture_running:
  "get_motion (device ([] # fs)) (running lf) =
     (Inr (None, None, 0), \<lparr>opens = [True], feed = fs, trace = [DevRead]\<rparr>, running lf)"
  by (simp add: get_motion_def needs_start_def running_def isOpened_def cap_read_def device_def)

lemma compare_130_131:
  "compare_frames [[130, 131]] (Some [[100, 100]]) = Inr ([[0, 255]], 50)"
  by (rule compare_frames_eval [where d = "[[30, 31]]" and a = 100 and b = 2])
    (simp_all add: absdiff_def shape_def absdiff_px_def threshold_BINARY_def
      count_nonzero_def np_size_def py_truediv_values)

lemma capture_132_129:
  "fst (get_motion \<lparr>opens = os, feed = gray_frame [[132, 129]] # fs, trace = tr\<rparr>
          (running (Some [[100, 100]]))) =
     Inr (Some (gray_frame [[132, 129]]), Some [[0, 255]], 50)"
proof -
  have r: "frame_read \<lparr>opens = os, feed = gray_frame [[132, 129]] # fs, trace = tr\<rparr>
      (running (Some [[100, 100]])) = Some (gray_frame [[132, 129]])"
    by (simp add: frame_read_def started_def needs_start_def running_def isOpened_def
        cap_read_def gray_frame_def)
  have l: "last_frame (running (Some [[100, 100]])) = Some [[100, 100]]"
    by (simp add: running_def)
  show ?thesis
    by (simp add: get_motion_read_ok(1) [OF r] l processed_132_129 compare_130_131)
qed




lemma nth_threshold:
  "i < length m \<Longrightarrow> j < length (m ! i) \<Longrightarrow>
   threshold_BINARY m t v ! i ! j = (if t < m ! i ! j then v else 0)"
  by (simp add: threshold_BINARY_def)

lemma nth_map2_rows:
  assumes "map length x = map length y" and "i < length x" and "j < length (x ! i)"
  shows "map2 (map2 f) x y ! i ! j = f (x ! i ! j) (y ! i ! j)"
proof -
  from assms(1) have len: "length x = length y" by (rule map_eq_imp_length_eq)
  from assms(1) have "map length x ! i = map length y ! i" by simp
  with assms(2) len have row: "length (x ! i) = length (y ! i)" by simp
  from assms(2,3) len row show ?thesis by simp
qed

section \<open>The box blur in integer arithmetic\<close>

lemma apply_kernel_default: "apply_kernel s frame None = filter2D (cvtColor_BGR2GRAY frame) (kernel s)"
  by (simp add: apply_kernel_def)

lemma capture_twice_eq:
  assumes "concat f1 \<noteq> []" and "concat f2 \<noteq> []"
  shows "capture_twice f1 f2 =
     (case compare_frames (apply_kernel (init 0 640 480) f2 None)
             (Some (apply_kernel (init 0 640 480) f1 None)) of
        Inl e \<Rightarrow> Inl e
      | Inr (m, a) \<Rightarrow> Inr (Some f2, Some m, a))"
proof -
  let ?w1 = "\<lparr>opens = [], feed = [f2],
       trace = [DevOpen 0, DevSet CAP_PROP_FRAME_WIDTH 640,
                DevSet CAP_PROP_FRAME_HEIGHT 480, DevRead]\<rparr>"
  let ?s1 = "running (Some (apply_kernel (init 0 640 480) f1 None))"
  have first: "get_motion (device [f1, f2]) (init 0 640 480) =
      (Inr (Some f1, Some (zeros_like (apply_kernel (init 0 640 480) f1 None)), 0), ?w1, ?s1)"
    using assms(1)
    by (simp add: get_motion_def needs_start_def start_capture_def VideoCapture_def
        cap_set_def cap_read_def device_def compare_frames_def Let_def apply_kernel_default)
      (simp add: init_def running_def)
  have r: "frame_read ?w1 ?s1 = Some f2"
    using assms(2)
    by (simp add: frame_read_def started_def needs_start_def running_def isOpened_def
        cap_read_def)
  have k: "apply_kernel ?s1 f2 None = apply_kernel (init 0 640 480) f2 None"
    by (simp add: apply_kernel_default running_def init_def)
  have l: "last_frame ?s1 = Some (apply_kernel (init 0 640 480) f1 None)"
    by (simp add: running_def)
  show ?thesis
    by (simp add: capture_twice_def first get_motion_read_ok(1) [OF r] k l)
qed

lemma blur_flat:
  "apply_kernel (init 0 640 480)
     (gray_frame [[100, 100, 100, 100], [100, 100, 100, 100],
                  [100, 100, 100, 100], [100, 100, 100, 100]]) None =
   [[100, 100, 100, 100], [100, 100, 100, 100], [100, 100, 100, 100], [100, 100, 100, 100]]"
  by (simp add: pipeline_eval init_def)

lemma blur_corners:
  "apply_kernel (init 0 640 480)
     (gray_frame [[150, 100, 100, 100], [100, 100, 100, 100],
                  [100, 100, 100, 100], [100, 100, 100, 150]]) None =
   [[106, 106, 100, 100], [106, 106, 100, 100], [100, 100, 106, 106], [100, 100, 106, 106]]"
  by (simp add: pipeline_eval init_def)

lemma gray_of_gray: "gray_of (v, v, v) = v"
proof -
  have "(3735 * unat v + 19235 * unat v + 9798 * unat v + 16384) div 32768 = unat v"
    by simp
  then show ?thesis by (simp add: gray_of_def)
qed

lemma cvtColor_gray_frame: "cvtColor_BGR2GRAY (gray_frame g) = g"
  by (simp add: cvtColor_BGR2GRAY_def gray_frame_def comp_def gray_of_gray map_idI)

lemma correlate_box:
  "correlate src (replicate 3 (replicate 3 (1 / 9))) i j = of_nat (tap_sum src i j) / 9"
  by (simp add: correlate_def tap_sum_def taps_def box_kernel kernel_cols_def Let_def
      upt_rec_numeral add_divide_distrib add.commute)

lemma cvRound_ninths: "cvRound (of_nat n / 9) = int ((n + 4) div 9)"
proof -
  have c: "cvRound (of_int (int n) / of_int 9) =
          (if 2 * (int n mod 9) < 9 then int n div 9
            else if 9 < 2 * (int n mod 9) then int n div 9 + 1
            else if even (int n div 9) then int n div 9 else int n div 9 + 1)"
    by (rule cvRound_of_int_div) simp
  have m: "int n mod 9 = int (n mod 9)" and d: "int n div 9 = int (n div 9)"
    by (simp_all add: zmod_int zdiv_int)
  have r: "(n + 4) div 9 = (if n mod 9 \<le> 4 then n div 9 else n div 9 + 1)"
    by presburger
  have ne: "2 * int (n mod 9) \<noteq> 9" by presburger
  have "cvRound (of_int (int n) / of_int 9) = int ((n + 4) div 9)"
    unfolding c m d r using ne by auto
  then show ?thesis by simp
qed

lemma tap_sum_le: "tap_sum src i j \<le> 9 * 255"
proof -
  have u: "unat v \<le> 255" for v :: uint8
  proof -
    have "unat v < 2 ^ LENGTH(8)" by (rule unsigned_less)
    then show ?thesis by simp
  qed
  have "tap_sum src i j \<le> (\<Sum>t\<leftarrow>taps (length src) (length (src ! i)) i j. 255)"
    unfolding tap_sum_def by (rule sum_list_mono) (auto simp: u)
  also have "\<dots> = 9 * 255"
    by (simp add: taps_def sum_list_triv length_concat upt_rec_numeral)
  finally show ?thesis .
qed

lemma filter2D_box_nth:
  assumes "i < length src" and "j < length (src ! i)"
  shows "filter2D src (replicate 3 (replicate 3 (1 / 9))) ! i ! j =
           of_nat ((tap_sum src i j + 4) div 9)"
    and "unat (filter2D src (replicate 3 (replicate 3 (1 / 9))) ! i ! j) =
           (tap_sum src i j + 4) div 9"
proof -
  let ?b = "(tap_sum src i j + 4) div 9"
  have le: "?b \<le> 255" using tap_sum_le [of src i j] by simp
  have "filter2D src (replicate 3 (replicate 3 (1 / 9))) ! i ! j =
          saturate_cast (cvRound (of_nat (tap_sum src i j) / 9))"
    using assms by (simp add: filter2D_def correlate_box)
  also have "\<dots> = saturate_cast (int ?b)" by (simp only: cvRound_ninths)
  also have "\<dots> = of_nat ?b" using le by (simp add: saturate_cast_def)
  finally show a: "filter2D src (replicate 3 (replicate 3 (1 / 9))) ! i ! j = of_nat ?b" .
  show "unat (filter2D src (replicate 3 (replicate 3 (1 / 9))) ! i ! j) = ?b"
    unfolding a using le by (simp add: unat_of_nat)
qed

section \<open>Two changed pixels under the box blur\<close>

lemma sum_list_diff_bound:
  fixes f1 f2 :: "'a \<Rightarrow> nat"
  assumes "\<And>t. t \<in> set ts \<Longrightarrow> t \<noteq> p \<Longrightarrow> t \<noteq> q \<Longrightarrow> f2 t = f1 t"
    and "\<bar>int (f2 p) - int (f1 p)\<bar> \<le> d" and "\<bar>int (f2 q) - int (f1 q)\<bar> \<le> d"
  shows "\<bar>int (sum_list (map f2 ts)) - int (sum_list (map f1 ts))\<bar> \<le>
           d * int (length (filter (\<lambda>t. t = p \<or> t = q) ts))"
  using assms(1)
proof (induction ts)
  case Nil
  then show ?case by simp
next
  case (Cons t ts)
  have ih: "\<bar>int (sum_list (map f2 ts)) - int (sum_list (map f1 ts))\<bar> \<le>
           d * int (length (filter (\<lambda>t. t = p \<or> t = q) ts))"
    by (rule Cons.IH) (simp add: Cons.prems)
  show ?case
  proof (cases "t = p \<or> t = q")
    case True
    then have "\<bar>int (f2 t) - int (f1 t)\<bar> \<le> d" using assms(2,3) by auto
    with ih True show ?thesis by (simp add: algebra_simps)
  next
    case False
    then have "f2 t = f1 t" using Cons.prems [of t] by simp
    with ih False show ?thesis by simp
  qed
qed

lemma blur_step_mono:
  fixes a b :: nat
  assumes "a \<le> b + 250"
  shows "(a + 4) div 9 \<le> (b + 4) div 9 + 28"
proof -
  have "(a + 4) div 9 \<le> (b + 4 + 28 * 9) div 9"
    by (rule div_le_mono) (use assms in simp)
  also have "\<dots> = (b + 4) div 9 + 28"
    by (simp only: div_mult_self3)
  finally show ?thesis .
qed

lemma blur_step_bound:
  fixes a b :: nat
  assumes "\<bar>int a - int b\<bar> \<le> 250"
  shows "\<bar>int ((a + 4) div 9) - int ((b + 4) div 9)\<bar> \<le> 28"
proof -
  from assms have ab: "a \<le> b + 250" and ba: "b \<le> a + 250" by linarith+
  have "(a + 4) div 9 \<le> (b + 4) div 9 + 28" by (rule blur_step_mono [OF ab])
  moreover have "(b + 4) div 9 \<le> (a + 4) div 9 + 28" by (rule blur_step_mono [OF ba])
  ultimately show ?thesis by linarith
qed


lemma list4: "length xs = 4 \<Longrightarrow> \<exists>a b c d. xs = [a, b, c, d]"
  by (auto simp: numeral_eq_Suc length_Suc_conv)

lemma concat_positions4:
  assumes "image4 m"
  shows "concat m = map (\<lambda>(i, j). m ! i ! j) positions4"
proof -
  from assms obtain r0 r1 r2 r3 where m: "m = [r0, r1, r2, r3]"
    unfolding image4_def using list4 by blast
  from assms m have "length r0 = 4" "length r1 = 4" "length r2 = 4" "length r3 = 4"
    by (simp_all add: image4_def)
  then have "(\<exists>a b c d. r0 = [a, b, c, d]) \<and> (\<exists>a b c d. r1 = [a, b, c, d]) \<and>
      (\<exists>a b c d. r2 = [a, b, c, d]) \<and> (\<exists>a b c d. r3 = [a, b, c, d])"
    by (simp add: list4)
  then obtain a0 b0 c0 d0 a1 b1 c1 d1 a2 b2 c2 d2 a3 b3 c3 d3 where
    "r0 = [a0, b0, c0, d0]" "r1 = [a1, b1, c1, d1]" "r2 = [a2, b2, c2, d2]"
    "r3 = [a3, b3, c3, d3]"
    by blast
  with m show ?thesis by (simp add: positions4_def)
qed

lemma set_grid: "set (concat (map (\<lambda>i. map (\<lambda>j. (i, j)) ys) xs)) = set xs \<times> set ys"
  by auto

lemma positions4_set: "(i, j) \<in> set positions4 \<longleftrightarrow> i < 4 \<and> j < 4"
proof -
  have "set [0, 1, 2, 3 :: nat] = {..<4}" by auto
  then have "set positions4 = {..<4} \<times> {..<4}"
    unfolding positions4_def set_grid by simp
  then show ?thesis by simp
qed

lemma border101_less: "0 < len \<Longrightarrow> border101 len p < len"
  by (auto simp: border101_def Let_def)

lemma taps_in_range:
  assumes "t \<in> set (taps 4 4 i j)"
  shows "t \<in> set positions4"
proof -
  obtain y x where t: "t = (y, x)" by fastforce
  from assms have "y < 4 \<and> x < 4"
    unfolding t taps_def using border101_less [of 4] by auto
  then show ?thesis by (simp add: t positions4_set)
qed

lemma image4_nth: "image4 g \<Longrightarrow> i < 4 \<Longrightarrow> length (g ! i) = 4"
  by (simp add: image4_def)

lemma image4_shape: "image4 g \<Longrightarrow> shape g = [4, 4, 4, 4]"
proof -
  assume a: "image4 g"
  then obtain r0 r1 r2 r3 where m: "g = [r0, r1, r2, r3]"
    unfolding image4_def using list4 by blast
  with a show ?thesis by (simp add: image4_def shape_def)
qed

lemma shape_image4: "shape g = [4, 4, 4, 4] \<Longrightarrow> image4 g"
proof -
  assume a: "shape g = [4, 4, 4, 4]"
  then have "length (map length g) = 4" by (simp add: shape_def)
  then have l: "length g = 4" by simp
  have "\<forall>r\<in>set g. length r = 4"
  proof
    fix r assume "r \<in> set g"
    then have "length r \<in> set (map length g)" by simp
    with a show "length r = 4" by (simp add: shape_def)
  qed
  with l show ?thesis by (simp add: image4_def)
qed

lemma uint_absdiff_px: "uint (absdiff_px a b) = \<bar>uint a - uint b\<bar>"
proof (cases "b \<le> a")
  case True
  then have le: "uint b \<le> uint a" by (simp add: word_le_def)
  then have "uint (a - b) = uint a - uint b" by (simp add: uint_sub_lem [symmetric])
  with True le show ?thesis by (simp add: absdiff_px_def)
next
  case False
  then have ab: "a \<le> b" by simp
  then have le: "uint a \<le> uint b" by (simp add: word_le_def)
  then have "uint (b - a) = uint b - uint a" by (simp add: uint_sub_lem [symmetric])
  with False le show ?thesis by (simp add: absdiff_px_def)
qed


lemma heavy_all:
  "\<forall>p\<in>set positions4. \<forall>q\<in>set positions4. p \<noteq> q \<longrightarrow> length (heavy p q) \<le> 1"
  by code_simp

lemma filter_length_mono:
  "(\<And>x. x \<in> set xs \<Longrightarrow> P x \<Longrightarrow> Q x) \<Longrightarrow> length (filter P xs) \<le> length (filter Q xs)"
proof (induction xs)
  case Nil
  then show ?case by simp
next
  case (Cons x xs)
  then have "length (filter P xs) \<le> length (filter Q xs)" by simp
  with Cons.prems [of x] show ?case by auto
qed

lemma tap_sum_image4:
  assumes "image4 g" and "i < 4"
  shows "tap_sum g i j = (\<Sum>t\<leftarrow>taps 4 4 i j. unat (g ! fst t ! snd t))"
proof -
  from assms have "length g = 4" "length (g ! i) = 4" by (simp_all add: image4_def)
  then show ?thesis by (simp add: tap_sum_def case_prod_unfold)
qed

lemma blurred_pixel_unmarked:
  assumes c: "two_pixels_changed g1 g2 p q" and ij: "(i, j) \<in> set positions4"
    and few: "length (filter (\<lambda>t. t = p \<or> t = q) (taps 4 4 i j)) \<le> 5"
  shows "\<not> 30 < absdiff_px (filter2D g2 (replicate 3 (replicate 3 (1 / 9))) ! i ! j)
                        (filter2D g1 (replicate 3 (replicate 3 (1 / 9))) ! i ! j)"
proof -
  let ?box = "replicate 3 (replicate 3 (1 / 9 :: rat))"
  let ?f1 = "\<lambda>t. unat (g1 ! fst t ! snd t)" and ?f2 = "\<lambda>t. unat (g2 ! fst t ! snd t)"
  from ij have i: "i < 4" and j: "j < 4" by (simp_all add: positions4_set)
  from c have g1: "image4 g1" and g2: "image4 g2" by (simp_all add: two_pixels_changed_def)
  have same: "?f2 t = ?f1 t" if "t \<in> set (taps 4 4 i j)" "t \<noteq> p" "t \<noteq> q" for t
  proof -
    from that(1) have "t \<in> set positions4" by (rule taps_in_range)
    with c that(2,3) show ?thesis by (auto simp: two_pixels_changed_def)
  qed
  from c have dp: "\<bar>int (?f2 p) - int (?f1 p)\<bar> \<le> 50" and dq: "\<bar>int (?f2 q) - int (?f1 q)\<bar> \<le> 50"
    by (simp_all add: two_pixels_changed_def)
  have "\<bar>int (sum_list (map ?f2 (taps 4 4 i j))) - int (sum_list (map ?f1 (taps 4 4 i j)))\<bar> \<le>
          50 * int (length (filter (\<lambda>t. t = p \<or> t = q) (taps 4 4 i j)))"
    by (rule sum_list_diff_bound [OF same dp dq])
  also have "\<dots> \<le> 250" using few by simp
  finally have "\<bar>int (tap_sum g2 i j) - int (tap_sum g1 i j)\<bar> \<le> 250"
    by (simp only: tap_sum_image4 [OF g1 i] tap_sum_image4 [OF g2 i])
  then have b: "\<bar>int ((tap_sum g2 i j + 4) div 9) - int ((tap_sum g1 i j + 4) div 9)\<bar> \<le> 28"
    by (rule blur_step_bound)
  have l1: "i < length g1" "j < length (g1 ! i)" and l2: "i < length g2" "j < length (g2 ! i)"
    using g1 g2 i j by (simp_all add: image4_def)
  have u1: "uint (filter2D g1 ?box ! i ! j) = int ((tap_sum g1 i j + 4) div 9)"
    using filter2D_box_nth(2) [OF l1] by (simp add: uint_nat)
  have u2: "uint (filter2D g2 ?box ! i ! j) = int ((tap_sum g2 i j + 4) div 9)"
    using filter2D_box_nth(2) [OF l2] by (simp add: uint_nat)
  have "uint (absdiff_px (filter2D g2 ?box ! i ! j) (filter2D g1 ?box ! i ! j)) \<le> 28"
    using b by (simp only: uint_absdiff_px u1 u2)
  then show ?thesis by (simp add: word_less_def)
qed


lemma blurred_gray_frame:
  "apply_kernel (init 0 640 480) (gray_frame g) None =
     filter2D g (replicate 3 (replicate 3 (1 / 9)))"
  by (simp add: apply_kernel_default cvtColor_gray_frame init_def)

lemma gray_frame_nonempty: "image4 g \<Longrightarrow> concat (gray_frame g) \<noteq> []"
proof -
  assume "image4 g"
  then have "shape g = [4, 4, 4, 4]" by (rule image4_shape)
  then have "np_size (gray_frame g) = 16"
    by (simp add: np_size_shape shape_def gray_frame_def comp_def)
  then have "length (concat (gray_frame g)) \<noteq> 0" by (simp add: np_size_def)
  then show ?thesis by (simp only: length_0_conv not_False_eq_True)
qed

lemma blur_adjacent:
  "apply_kernel (init 0 640 480)
     (gray_frame [[100, 100, 100, 100], [150, 150, 100, 100],
                  [100, 100, 100, 100], [100, 100, 100, 100]]) None =
   [[133, 122, 111, 100], [117, 111, 106, 100], [117, 111, 106, 100], [100, 100, 100, 100]]"
  by (simp add: pipeline_eval init_def)

lemma changed_corners:
  "two_pixels_changed
     [[100, 100, 100, 100], [100, 100, 100, 100], [100, 100, 100, 100], [100, 100, 100, 100]]
     [[150, 100, 100, 100], [100, 100, 100, 100], [100, 100, 100, 100], [100, 100, 100, 150]]
     (0, 0) (3, 3)"
  by (simp add: two_pixels_changed_def image4_def positions4_def)

lemma changed_adjacent:
  "two_pixels_changed
     [[100, 100, 100, 100], [100, 100, 100, 100], [100, 100, 100, 100], [100, 100, 100, 100]]
     [[100, 100, 100, 100], [150, 150, 100, 100], [100, 100, 100, 100], [100, 100, 100, 100]]
     (1, 0) (1, 1)"
  by (simp add: two_pixels_changed_def image4_def positions4_def)

lemma compare_flat_corners:
  "compare_frames
     [[106, 106, 100, 100], [106, 106, 100, 100], [100, 100, 106, 106], [100, 100, 106, 106]]
     (Some [[100, 100, 100, 100], [100, 100, 100, 100],
            [100, 100, 100, 100], [100, 100, 100, 100]]) =
     Inr ([[0, 0, 0, 0], [0, 0, 0, 0], [0, 0, 0, 0], [0, 0, 0, 0]], 0)"
  by (rule compare_frames_eval
      [where d = "[[6, 6, 0, 0], [6, 6, 0, 0], [0, 0, 6, 6], [0, 0, 6, 6]]"
         and a = 0 and b = 16])
    (simp_all add: absdiff_def shape_def absdiff_px_def threshold_BINARY_def
      count_nonzero_def np_size_def py_truediv_values)

lemma compare_flat_adjacent:
  "compare_frames
     [[133, 122, 111, 100], [117, 111, 106, 100], [117, 111, 106, 100], [100, 100, 100, 100]]
     (Some [[100, 100, 100, 100], [100, 100, 100, 100],
            [100, 100, 100, 100], [100, 100, 100, 100]]) =
     Inr ([[255, 0, 0, 0], [0, 0, 0, 0], [0, 0, 0, 0], [0, 0, 0, 0]], 25 / 4)"
  by (rule compare_frames_eval
      [where d = "[[33, 22, 11, 0], [17, 11, 6, 0], [17, 11, 6, 0], [0, 0, 0, 0]]"
         and a = 100 and b = 16])
    (simp_all add: absdiff_def shape_def absdiff_px_def threshold_BINARY_def
      count_nonzero_def np_size_def py_truediv_values)

lemma capture_adjacent:
  "capture_twice
     (gray_frame [[100, 100, 100, 100], [100, 100, 100, 100],
                  [100, 100, 100, 100], [100, 100, 100, 100]])
     (gray_frame [[100, 100, 100, 100], [150, 150, 100, 100],
                  [100, 100, 100, 100], [100, 100, 100, 100]]) =
     Inr (Some (gray_frame [[100, 100, 100, 100], [150, 150, 100, 100],
                            [100, 100, 100, 100], [100, 100, 100, 100]]),
          Some [[255, 0, 0, 0], [0, 0, 0, 0], [0, 0, 0, 0], [0, 0, 0, 0]], 25 / 4)"
  by (subst capture_twice_eq)
    (simp_all add: blur_flat blur_adjacent compare_flat_adjacent, simp_all add: gray_frame_def)

lemma capture_corners:
  "capture_twice
     (gray_frame [[100, 100, 100, 100], [100, 100, 100, 100],
                  [100, 100, 100, 100], [100, 100, 100, 100]])
     (gray_frame [[150, 100, 100, 100], [100, 100, 100, 100],
                  [100, 100, 100, 100], [100, 100, 100, 150]]) =
     Inr (Some (gray_frame [[150, 100, 100, 100], [100, 100, 100, 100],
                            [100, 100, 100, 100], [100, 100, 100, 150]]),
          Some [[0, 0, 0, 0], [0, 0, 0, 0], [0, 0, 0, 0], [0, 0, 0, 0]], 0)"
  by (subst capture_twice_eq)
    (simp_all add: blur_flat blur_corners compare_flat_corners, simp_all add: gray_frame_def)

section \<open>The claims\<close>




text \<open>
  C2. For every call to \<open>get_motion\<close> in which the device read fails, the call returns
  the triple (no frame, no motion mask, motion amount 0) and raises no error.
\<close>

theorem read_failure_result:
  assumes "frame_read w s = None"
  shows "fst (get_motion w s) = Inr (None, None, 0)"
  using assms by (rule get_motion_read_fails(1))

theorem read_failure_result_witness:
  "frame_read (device []) (init 0 640 480) = None \<and>
   fst (get_motion (device []) (init 0 640 480)) = Inr (None, None, 0)"
proof -
  have r: "frame_read (device []) (init 0 640 480) = None"
    by (simp add: frame_read_def started_def needs_start_def init_def start_capture_def
        VideoCapture_def cap_set_def cap_read_def device_def Let_def)
  from r read_failure_result [OF r] show ?thesis by simp
qed

text \<open>
  C4. For every call to \<open>get_motion\<close> in which the read succeeds but no previous
  processed frame exists, the motion amount is 0 and the returned motion mask is an
  all-zero image of the shape of the processed frame, whatever the frame shows.
\<close>

theorem first_call_no_motion:
  assumes "frame_read w s = Some frame" and "last_frame s = None"
  shows "\<exists>mask. fst (get_motion w s) = Inr (Some frame, Some mask, 0) \<and>
           shape mask = shape (apply_kernel s frame None) \<and> all_zero mask"
  by (simp add: get_motion_read_ok(1) [OF assms(1)] assms(2) compare_frames_None
      shape_zeros_like all_zero_zeros_like)

theorem first_call_no_motion_witness:
  "frame_read (device [gray_frame [[132, 129]]]) (init 0 640 480) =
     Some (gray_frame [[132, 129]]) \<and>
   last_frame (init 0 640 480) = None \<and>
   (\<exists>mask. fst (get_motion (device [gray_frame [[132, 129]]]) (init 0 640 480)) =
      Inr (Some (gray_frame [[132, 129]]), Some mask, 0) \<and>
      shape mask = [2] \<and> all_zero mask)"
proof -
  have r: "frame_read (device [gray_frame [[132, 129]]]) (init 0 640 480) =
     Some (gray_frame [[132, 129]])"
    by (simp add: frame_read_init gray_frame_def)
  have l: "last_frame (init 0 640 480) = None"
    by (simp add: init_def)
  have "shape (apply_kernel (init 0 640 480) (gray_frame [[132, 129]]) None) = [2]"
    by (simp add: shape_apply_kernel) (simp add: shape_def gray_frame_def)
  with first_call_no_motion [OF r l] r l show ?thesis by simp
qed

text \<open>
  C7. For every call to \<open>get_motion\<close>, the returned motion amount lies in the closed
  interval from 0 to 100, and it is 0 when the read fails or no previous frame exists.
\<close>

theorem motion_amount_range:
  assumes "fst (get_motion w s) = Inr (fr, m, a)"
  shows "0 \<le> a \<and> a \<le> 100 \<and> (frame_read w s = None \<or> last_frame s = None \<longrightarrow> a = 0)"
proof (cases "frame_read w s")
  case None
  with assms show ?thesis by (simp add: get_motion_read_fails(1))
next
  case (Some frame)
  show ?thesis
  proof (cases "last_frame s")
    case None
    with assms Some show ?thesis
      by (simp add: get_motion_read_ok(1) compare_frames_None)
  next
    case prev: (Some prev)
    show ?thesis
    proof (cases "shape (apply_kernel s frame None) = shape prev")
      case True
      have pos: "0 < np_size (apply_kernel s frame None)"
        using frame_read_nonempty [OF Some] by (simp add: np_size_apply_kernel)
      from compare_frames_same_shape [OF True pos] obtain mask where
        m: "compare_frames (apply_kernel s frame None) (Some prev) =
              Inr (mask, nearest_double (count_nonzero mask * 100) (np_size mask))"
           "shape mask = shape (apply_kernel s frame None)"
        by blast
      from m(2) pos have sz: "0 < np_size mask" by (simp add: np_size_shape)
      from assms m(1) have a: "a = nearest_double (count_nonzero mask * 100) (np_size mask)"
        by (simp add: get_motion_read_ok(1) [OF Some] prev)
      have le: "count_nonzero mask * 100 \<le> 100 * np_size mask"
        using count_nonzero_le_size [of mask] by simp
      have "0 \<le> a" and "a \<le> 100"
        unfolding a by (rule nearest_double_range [OF sz le])+
      then show ?thesis using Some prev by simp
    next
      case False
      with assms Some prev show ?thesis
        by (simp add: get_motion_read_ok(1) compare_frames_other_shape)
    qed
  qed
qed

theorem motion_amount_range_witness:
  "fst (get_motion (device [gray_frame [[132, 129]]]) (running (Some [[100, 100]]))) =
     Inr (Some (gray_frame [[132, 129]]), Some [[0, 255]], 50) \<and>
   (0::rat) \<le> 50 \<and> (50::rat) \<le> 100"
proof -
  have r: "frame_read (device [gray_frame [[132, 129]]]) (running (Some [[100, 100]])) =
     Some (gray_frame [[132, 129]])"
    by (simp add: frame_read_running gray_frame_def)
  have l: "last_frame (running (Some [[100, 100]])) = Some [[100, 100]]"
    by (simp add: running_def)
  have g: "fst (get_motion (device [gray_frame [[132, 129]]]) (running (Some [[100, 100]]))) =
       Inr (Some (gray_frame [[132, 129]]), Some [[0, 255]], 50)"
    unfolding device_def by (rule capture_132_129)
  from g motion_amount_range [OF g] show ?thesis by simp
qed

text \<open>
  C8. For every two consecutive successful \<open>get_motion\<close> calls whose captured frames
  are pixel-wise identical, the second call reports motion amount 0 and an all-zero
  motion mask.
\<close>

theorem identical_frames_no_motion:
  assumes "get_motion w s = (Inr (Some frame, m1, a1), w1, s1)"
    and "frame_read w1 s1 = Some frame"
  shows "\<exists>mask. fst (get_motion w1 s1) = Inr (Some frame, Some mask, 0) \<and>
           all_zero mask \<and> shape mask = shape frame"
proof -
  have rd: "frame_read w s = Some frame"
  proof (cases "frame_read w s")
    case None
    with assms(1) show ?thesis using get_motion_read_fails(1) [of w s] by simp
  next
    case (Some f)
    with assms(1) show ?thesis using get_motion_read_ok(1) [of w s f]
      by (auto split: sum.splits prod.splits)
  qed
  let ?p = "apply_kernel s frame None"
  from assms(1) obtain m a where cf: "compare_frames ?p (last_frame s) = Inr (m, a)"
    using get_motion_read_ok(1) [OF rd] by (auto split: sum.splits prod.splits)
  from assms(1) have "s1 = snd (snd (get_motion w s))" by simp
  then have s1: "s1 = (snd (started w s))\<lparr>last_frame := Some ?p\<rparr>"
    by (simp add: get_motion_read_ok(2) [OF rd] cf)
  have lf: "last_frame s1 = Some ?p" by (simp add: s1)
  have "kernel s1 = kernel s" by (simp add: s1 started_fields(2))
  then have ak: "apply_kernel s1 frame None = ?p" by (simp add: apply_kernel_def)
  have pos: "0 < np_size ?p"
    using frame_read_nonempty [OF rd] by (simp add: np_size_apply_kernel)
  show ?thesis
    by (simp add: get_motion_read_ok(1) [OF assms(2)] lf ak compare_frames_self [OF pos]
        all_zero_zeros_like shape_zeros_like shape_apply_kernel)
qed

theorem identical_frames_no_motion_witness:
  "get_motion (device [gray_frame [[7]], gray_frame [[7]]]) (init 0 640 480) =
     (Inr (Some (gray_frame [[7]]), Some [[0]], 0),
      \<lparr>opens = [], feed = [gray_frame [[7]]],
       trace = [DevOpen 0, DevSet CAP_PROP_FRAME_WIDTH 640,
                DevSet CAP_PROP_FRAME_HEIGHT 480, DevRead]\<rparr>,
      running (Some [[7]])) \<and>
   (\<exists>mask. fst (get_motion
        \<lparr>opens = [], feed = [gray_frame [[7]]],
         trace = [DevOpen 0, DevSet CAP_PROP_FRAME_WIDTH 640,
                  DevSet CAP_PROP_FRAME_HEIGHT 480, DevRead]\<rparr>
        (running (Some [[7]]))) = Inr (Some (gray_frame [[7]]), Some mask, 0) \<and>
      all_zero mask \<and> shape mask = [1])"
proof -
  have r: "frame_read \<lparr>opens = [], feed = [gray_frame [[7]]],
         trace = [DevOpen 0, DevSet CAP_PROP_FRAME_WIDTH 640,
                  DevSet CAP_PROP_FRAME_HEIGHT 480, DevRead]\<rparr>
        (running (Some [[7]])) = Some (gray_frame [[7]])"
    by (simp add: frame_read_def started_def needs_start_def running_def isOpened_def
        cap_read_def gray_frame_def)
  have sh: "shape (gray_frame [[7]]) = [1]" by (simp add: shape_def gray_frame_def)
  from identical_frames_no_motion [OF first_capture_1x1 r] first_capture_1x1 sh
  show ?thesis by simp
qed

text \<open>
  C9. For every call to \<open>get_motion\<close> made while the device handle is absent, or held
  but not open, \<open>get_motion\<close> first performs the start operation (it opens the device of
  the configured camera index and requests the configured width and height, and holds
  the new handle) and only then reads; with an open handle it reads at once and keeps
  the handle. The caller never needs to call \<open>start_capture\<close>: the read never meets a
  missing handle, and where the device opens, calling \<open>start_capture\<close> first gives the
  same outcome.
\<close>

theorem lazy_start:
  "((cap s = None \<or> (\<exists>c. cap s = Some c \<and> \<not> opened c)) \<longrightarrow>
      trace (fst (snd (get_motion w s))) =
        trace w @ [DevOpen (camera_index s), DevSet CAP_PROP_FRAME_WIDTH (width s),
                   DevSet CAP_PROP_FRAME_HEIGHT (height s), DevRead] \<and>
      cap (snd (snd (get_motion w s))) =
        Some \<lparr>cap_index = camera_index s,
              opened = (case opens w of [] \<Rightarrow> False | ok # rest \<Rightarrow> ok)\<rparr>) \<and>
   ((\<exists>c. cap s = Some c \<and> opened c) \<longrightarrow>
      trace (fst (snd (get_motion w s))) = trace w @ [DevRead] \<and>
      cap (snd (snd (get_motion w s))) = cap s) \<and>
   fst (get_motion w s) \<noteq> Inl AttributeError \<and>
   ((cap s = None \<or> (\<exists>c. cap s = Some c \<and> \<not> opened c)) \<and>
    (\<exists>rest. opens w = True # rest) \<longrightarrow>
      get_motion w s = (case start_capture w s of (w1, s1) \<Rightarrow> get_motion w1 s1))"
proof (intro conjI impI)
  assume "cap s = None \<or> (\<exists>c. cap s = Some c \<and> \<not> opened c)"
  then have n: "needs_start s" by (auto simp: needs_start_def isOpened_def)
  then show "trace (fst (snd (get_motion w s))) =
        trace w @ [DevOpen (camera_index s), DevSet CAP_PROP_FRAME_WIDTH (width s),
                   DevSet CAP_PROP_FRAME_HEIGHT (height s), DevRead]"
    by (simp add: get_motion_world started_def start_capture_eq)
  from n show "cap (snd (snd (get_motion w s))) =
        Some \<lparr>cap_index = camera_index s,
              opened = (case opens w of [] \<Rightarrow> False | ok # rest \<Rightarrow> ok)\<rparr>"
    by (simp add: get_motion_cap started_def start_capture_eq)
next
  assume "\<exists>c. cap s = Some c \<and> opened c"
  then have n: "\<not> needs_start s" by (auto simp: needs_start_def isOpened_def)
  then show "trace (fst (snd (get_motion w s))) = trace w @ [DevRead]"
    by (simp add: get_motion_world started_def)
  from n show "cap (snd (snd (get_motion w s))) = cap s"
    by (simp add: get_motion_cap started_def)
next
  show "fst (get_motion w s) \<noteq> Inl AttributeError"
    by (rule get_motion_no_attribute_error)
next
  assume a: "(cap s = None \<or> (\<exists>c. cap s = Some c \<and> \<not> opened c)) \<and>
    (\<exists>rest. opens w = True # rest)"
  then have n: "needs_start s" by (auto simp: needs_start_def isOpened_def)
  from a obtain rest where o: "opens w = True # rest" by blast
  obtain w1 s1 where sc: "start_capture w s = (w1, s1)" by fastforce
  then have "\<not> needs_start s1"
    by (auto simp: start_capture_eq o needs_start_def isOpened_def)
  then have st1: "started w1 s1 = (w1, s1)" by (simp add: started_def)
  from n sc have st: "started w s = (w1, s1)" by (simp add: started_def)
  have "get_motion w s = get_motion w1 s1"
    by (simp add: get_motion_started st st1)
  then show "get_motion w s = (case start_capture w s of (w1, s1) \<Rightarrow> get_motion w1 s1)"
    by (simp add: sc)
qed

theorem lazy_start_witness:
  "cap (init 0 640 480) = None \<and>
   trace (fst (snd (get_motion (device [gray_frame [[7]]]) (init 0 640 480)))) =
     [DevOpen 0, DevSet CAP_PROP_FRAME_WIDTH 640, DevSet CAP_PROP_FRAME_HEIGHT 480, DevRead] \<and>
   cap ((init 0 640 480)\<lparr>cap := Some \<lparr>cap_index = 0, opened = False\<rparr>\<rparr>) =
     Some \<lparr>cap_index = 0, opened = False\<rparr> \<and>
   \<not> opened \<lparr>cap_index = 0, opened = False\<rparr> \<and>
   opens (device [gray_frame [[7]]]) = [True] \<and>
   trace (fst (snd (get_motion (device [gray_frame [[7]]])
        ((init 0 640 480)\<lparr>cap := Some \<lparr>cap_index = 0, opened = False\<rparr>\<rparr>)))) =
     [DevOpen 0, DevSet CAP_PROP_FRAME_WIDTH 640, DevSet CAP_PROP_FRAME_HEIGHT 480, DevRead] \<and>
   cap (snd (snd (get_motion (device [gray_frame [[7]]])
        ((init 0 640 480)\<lparr>cap := Some \<lparr>cap_index = 0, opened = False\<rparr>\<rparr>)))) =
     Some \<lparr>cap_index = 0, opened = True\<rparr> \<and>
   get_motion (device [gray_frame [[7]]])
       ((init 0 640 480)\<lparr>cap := Some \<lparr>cap_index = 0, opened = False\<rparr>\<rparr>) =
     (case start_capture (device [gray_frame [[7]]])
             ((init 0 640 480)\<lparr>cap := Some \<lparr>cap_index = 0, opened = False\<rparr>\<rparr>) of
        (w1, s1) \<Rightarrow> get_motion w1 s1) \<and>
   cap (running None) = Some \<lparr>cap_index = 0, opened = True\<rparr> \<and>
   trace (fst (snd (get_motion (device [gray_frame [[7]]]) (running None)))) = [DevRead]"
proof -
  let ?w = "device [gray_frame [[7]]]"
  let ?s0 = "init 0 640 480"
  let ?s1 = "(init 0 640 480)\<lparr>cap := Some \<lparr>cap_index = 0, opened = False\<rparr>\<rparr>"
  let ?s2 = "running None"
  have c0: "cap ?s0 = None" by (simp add: init_def)
  have c1: "cap ?s1 = Some \<lparr>cap_index = 0, opened = False\<rparr>" by simp
  have c2: "cap ?s2 = Some \<lparr>cap_index = 0, opened = True\<rparr>" by (simp add: running_def)
  have o: "opens ?w = [True]" and t: "trace ?w = []" by (simp_all add: device_def)
  have f0: "camera_index ?s0 = 0" "width ?s0 = 640" "height ?s0 = 480"
    by (simp_all add: init_def)
  have f1: "camera_index ?s1 = 0" "width ?s1 = 640" "height ?s1 = 480"
    by (simp_all add: init_def)
  note L0 = lazy_start [of ?s0 ?w] and L1 = lazy_start [of ?s1 ?w]
    and L2 = lazy_start [of ?s2 ?w]
  from L0 c0 t f0 have a0: "trace (fst (snd (get_motion ?w ?s0))) =
     [DevOpen 0, DevSet CAP_PROP_FRAME_WIDTH 640, DevSet CAP_PROP_FRAME_HEIGHT 480, DevRead]"
    by simp
  from L1 c1 t f1 have a1: "trace (fst (snd (get_motion ?w ?s1))) =
     [DevOpen 0, DevSet CAP_PROP_FRAME_WIDTH 640, DevSet CAP_PROP_FRAME_HEIGHT 480, DevRead]"
    by simp
  have h1: "(cap ?s1 = None \<or> (\<exists>c. cap ?s1 = Some c \<and> \<not> opened c)) \<and>
      (\<exists>rest. opens ?w = True # rest)"
    using c1 o by simp
  from L1 h1 have "cap (snd (snd (get_motion ?w ?s1))) =
     Some \<lparr>cap_index = camera_index ?s1,
           opened = (case opens ?w of [] \<Rightarrow> False | ok # rest \<Rightarrow> ok)\<rparr>"
    by blast
  then have b1: "cap (snd (snd (get_motion ?w ?s1))) =
     Some \<lparr>cap_index = 0, opened = True\<rparr>"
    by (simp only: o f1 list.case)
  from L1 h1 have d1: "get_motion ?w ?s1 =
     (case start_capture ?w ?s1 of (w1, s1) \<Rightarrow> get_motion w1 s1)"
    by blast
  from L2 c2 t have a2: "trace (fst (snd (get_motion ?w ?s2))) = [DevRead]"
    by simp
  have n1: "\<not> opened \<lparr>cap_index = 0, opened = False\<rparr>" by simp
  from c0 a0 c1 n1 o a1 b1 d1 c2 a2 show ?thesis by blast
qed

text \<open>
  C10, as amended. \<open>get_motion\<close> updates the previous-frame buffer exactly when it returns
  a frame. A call whose read fails leaves the buffer unchanged. A call whose read succeeds
  and that finds no previous frame, or a previous frame of the shape of the new frame,
  returns and stores the newly processed image as the new previous frame, whether or not
  a comparison was made. A call whose read succeeds on a frame of another shape than the
  previous one stores nothing: the absolute difference raises before the store. After a
  failed read, the next successful capture is compared against the frame processed before
  the failure.
\<close>

theorem previous_frame_update:
  "(frame_read w s = None \<longrightarrow> last_frame (snd (snd (get_motion w s))) = last_frame s) \<and>
   (frame_read w s = Some frame \<longrightarrow>
      (\<forall>prev. last_frame s = Some prev \<longrightarrow> shape prev = shape frame) \<longrightarrow>
      (\<exists>m a. fst (get_motion w s) = Inr (Some frame, Some m, a)) \<and>
      last_frame (snd (snd (get_motion w s))) = Some (apply_kernel s frame None)) \<and>
   (frame_read w s = Some frame \<longrightarrow> last_frame s = Some prev \<longrightarrow>
      shape prev \<noteq> shape frame \<longrightarrow>
      fst (get_motion w s) = Inl SizeMismatch \<and>
      last_frame (snd (snd (get_motion w s))) = last_frame s) \<and>
   (frame_read w s = None \<longrightarrow> snd (get_motion w s) = (w', s') \<longrightarrow>
      frame_read w' s' = Some frame' \<longrightarrow>
      fst (get_motion w' s') =
        (case compare_frames (apply_kernel s frame' None) (last_frame s) of
           Inl e \<Rightarrow> Inl e
         | Inr (m, a) \<Rightarrow> Inr (Some frame', Some m, a)))"
proof (intro conjI impI)
  assume "frame_read w s = None"
  then show "last_frame (snd (snd (get_motion w s))) = last_frame s"
    by (simp add: get_motion_read_fails(2) started_fields(1))
next
  assume rd: "frame_read w s = Some frame"
    and sh: "\<forall>prev. last_frame s = Some prev \<longrightarrow> shape prev = shape frame"
  let ?p = "apply_kernel s frame None"
  have "\<exists>m a. compare_frames ?p (last_frame s) = Inr (m, a)"
  proof (cases "last_frame s")
    case None
    then show ?thesis by (simp add: compare_frames_None)
  next
    case (Some prev)
    with sh have same: "shape ?p = shape prev" by (simp add: shape_apply_kernel)
    have pos: "0 < np_size ?p"
      using frame_read_nonempty [OF rd] by (simp add: np_size_apply_kernel)
    from compare_frames_same_shape [OF same pos] Some show ?thesis by auto
  qed
  then obtain m a where cf: "compare_frames ?p (last_frame s) = Inr (m, a)" by blast
  show "\<exists>m a. fst (get_motion w s) = Inr (Some frame, Some m, a)"
    by (simp add: get_motion_read_ok(1) [OF rd] cf)
  show "last_frame (snd (snd (get_motion w s))) = Some ?p"
    by (simp add: get_motion_read_ok(2) [OF rd] cf)
next
  assume rd: "frame_read w s = Some frame" and lf: "last_frame s = Some prev"
    and sh: "shape prev \<noteq> shape frame"
  from sh have cf: "compare_frames (apply_kernel s frame None) (Some prev) = Inl SizeMismatch"
    by (intro compare_frames_other_shape) (simp add: shape_apply_kernel)
  show "fst (get_motion w s) = Inl SizeMismatch"
    by (simp add: get_motion_read_ok(1) [OF rd] lf cf)
  show "last_frame (snd (snd (get_motion w s))) = last_frame s"
    by (simp add: get_motion_read_ok(2) [OF rd] lf cf started_fields(1))
next
  assume f: "frame_read w s = None" and n: "snd (get_motion w s) = (w', s')"
    and rd: "frame_read w' s' = Some frame'"
  have "apply_kernel s' frame' None = apply_kernel s frame' None"
    by (simp add: apply_kernel_def get_motion_after_failure(2) [OF f n])
  then show "fst (get_motion w' s') =
        (case compare_frames (apply_kernel s frame' None) (last_frame s) of
           Inl e \<Rightarrow> Inl e
         | Inr (m, a) \<Rightarrow> Inr (Some frame', Some m, a))"
    by (simp add: get_motion_read_ok(1) [OF rd] get_motion_after_failure(1) [OF f n])
qed

theorem previous_frame_update_witness:
  "frame_read (device [[], gray_frame [[132, 129]]]) (running (Some [[100, 100]])) = None \<and>
   snd (get_motion (device [[], gray_frame [[132, 129]]]) (running (Some [[100, 100]]))) =
     (\<lparr>opens = [True], feed = [gray_frame [[132, 129]]], trace = [DevRead]\<rparr>,
      running (Some [[100, 100]])) \<and>
   frame_read \<lparr>opens = [True], feed = [gray_frame [[132, 129]]], trace = [DevRead]\<rparr>
     (running (Some [[100, 100]])) = Some (gray_frame [[132, 129]]) \<and>
   shape [[100, 100 :: uint8]] = shape (gray_frame [[132, 129]]) \<and>
   last_frame (snd (snd (get_motion (device [[], gray_frame [[132, 129]]])
                           (running (Some [[100, 100]]))))) = Some [[100, 100]] \<and>
   last_frame (snd (snd (get_motion
       \<lparr>opens = [True], feed = [gray_frame [[132, 129]]], trace = [DevRead]\<rparr>
       (running (Some [[100, 100]]))))) = Some [[130, 131]] \<and>
   fst (get_motion \<lparr>opens = [True], feed = [gray_frame [[132, 129]]], trace = [DevRead]\<rparr>
          (running (Some [[100, 100]]))) =
     Inr (Some (gray_frame [[132, 129]]), Some [[0, 255]], 50)"
proof -
  let ?w = "device [[], gray_frame [[132, 129]]]"
  let ?s = "running (Some [[100, 100]])"
  let ?w' = "\<lparr>opens = [True], feed = [gray_frame [[132, 129]]], trace = [DevRead]\<rparr>"
  let ?f = "gray_frame [[132, 129]]"
  have f: "frame_read ?w ?s = None"
    by (simp add: frame_read_def started_def needs_start_def running_def isOpened_def
        cap_read_def device_def)
  have n: "snd (get_motion ?w ?s) = (?w', ?s)"
    by (simp add: failed_capture_running)
  have r: "frame_read ?w' ?s = Some ?f"
    by (simp add: frame_read_def started_def needs_start_def running_def isOpened_def
        cap_read_def gray_frame_def)
  have l: "last_frame ?s = Some [[100, 100]]" by (simp add: running_def)
  have sh: "shape [[100, 100 :: uint8]] = shape ?f" by (simp add: shape_def gray_frame_def)
  have p: "apply_kernel ?s ?f None = [[130, 131]]" by (rule processed_132_129)
  note U1 = previous_frame_update [of ?w ?s ?f "[[100, 100]]" ?w' ?s ?f]
  note U2 = previous_frame_update [of ?w' ?s ?f "[[100, 100]]" ?w' ?s ?f]
  from U1 f l have a: "last_frame (snd (snd (get_motion ?w ?s))) = Some [[100, 100]]"
    by simp
  from U2 r l sh p have b: "last_frame (snd (snd (get_motion ?w' ?s))) = Some [[130, 131]]"
    by simp
  have c: "fst (get_motion ?w' ?s) = Inr (Some ?f, Some [[0, 255]], 50)"
    by (rule capture_132_129)
  from f n r sh a b c show ?thesis by blast
qed

text \<open>
  C10, as stated, fails: a successful read of a frame of another shape than the previous
  frame leaves the old frame in the buffer.
\<close>

theorem previous_frame_update_counterexample:
  "frame_read (device [gray_frame [[7]]]) (running (Some [[100, 100]])) =
     Some (gray_frame [[7]]) \<and>
   fst (get_motion (device [gray_frame [[7]]]) (running (Some [[100, 100]]))) =
     Inl SizeMismatch \<and>
   last_frame (snd (snd (get_motion (device [gray_frame [[7]]]) (running (Some [[100, 100]]))))) =
     Some [[100, 100]] \<and>
   last_frame (snd (snd (get_motion (device [gray_frame [[7]]]) (running (Some [[100, 100]]))))) \<noteq>
     Some (apply_kernel (running (Some [[100, 100]])) (gray_frame [[7]]) None)"
proof -
  let ?w = "device [gray_frame [[7]]]" and ?s = "running (Some [[100, 100]])"
  have r: "frame_read ?w ?s = Some (gray_frame [[7]])"
    by (simp add: frame_read_running gray_frame_def)
  have p: "apply_kernel ?s (gray_frame [[7]]) None = [[7]]"
    by (rule apply_kernel_box_1x1) (simp add: running_def)
  have l: "last_frame ?s = Some [[100, 100]]"
    by (simp add: running_def)
  have cf: "compare_frames [[7]] (Some [[100, 100]]) = Inl SizeMismatch"
    by (rule compare_frames_other_shape) (simp add: shape_def)
  have a: "fst (get_motion ?w ?s) = Inl SizeMismatch"
    by (simp add: get_motion_read_ok(1) [OF r] l p cf)
  have b: "last_frame (snd (snd (get_motion ?w ?s))) = Some [[100, 100]]"
    by (simp add: get_motion_read_ok(2) [OF r] l p cf started_fields(1))
  from r a b p show ?thesis by simp
qed

text \<open>
  C6. \<open>stop_capture\<close> is safe in every state: it raises nothing, releases the device
  handle if one is held and otherwise leaves the device alone, and clears the handle and
  the previous-frame buffer, so that calling it again changes nothing. The camera is then
  in its initial state, and the next \<open>get_motion\<close>, with or without an explicit start,
  reports motion amount 0.
\<close>

theorem stop_capture_safe:
  "snd (stop_capture w s) = s\<lparr>cap := None, last_frame := None\<rparr> \<and>
   fst (stop_capture w s) =
     (case cap s of None \<Rightarrow> w | Some c \<Rightarrow> w\<lparr>trace := trace w @ [DevRelease]\<rparr>) \<and>
   stop_capture (fst (stop_capture w s)) (snd (stop_capture w s)) = stop_capture w s \<and>
   get_motion w' (snd (stop_capture w s)) =
     get_motion w' ((init (camera_index s) (width s) (height s))\<lparr>kernel := kernel s\<rparr>) \<and>
   (\<exists>fr m. fst (get_motion w' (snd (stop_capture w s))) = Inr (fr, m, 0)) \<and>
   (\<exists>fr m. fst (get_motion (fst (start_capture w' (snd (stop_capture w s))))
                            (snd (start_capture w' (snd (stop_capture w s))))) = Inr (fr, m, 0))"
proof (intro conjI)
  show a: "snd (stop_capture w s) = s\<lparr>cap := None, last_frame := None\<rparr>"
    by (simp add: stop_capture_def split: option.splits)
  show b: "fst (stop_capture w s) =
     (case cap s of None \<Rightarrow> w | Some c \<Rightarrow> w\<lparr>trace := trace w @ [DevRelease]\<rparr>)"
    by (simp add: stop_capture_def cap_release_def split: option.splits)
  show "stop_capture (fst (stop_capture w s)) (snd (stop_capture w s)) = stop_capture w s"
    by (simp add: stop_capture_def split: option.splits)
  have "snd (stop_capture w s) =
      (init (camera_index s) (width s) (height s))\<lparr>kernel := kernel s\<rparr>"
    by (simp add: a init_def)
  then show "get_motion w' (snd (stop_capture w s)) =
     get_motion w' ((init (camera_index s) (width s) (height s))\<lparr>kernel := kernel s\<rparr>)"
    by simp
  show "\<exists>fr m. fst (get_motion w' (snd (stop_capture w s))) = Inr (fr, m, 0)"
    by (rule get_motion_no_previous) (rule no_previous_frame(2))
  show "\<exists>fr m. fst (get_motion (fst (start_capture w' (snd (stop_capture w s))))
                            (snd (start_capture w' (snd (stop_capture w s))))) = Inr (fr, m, 0)"
    by (rule get_motion_no_previous) (rule no_previous_frame(3))
qed

theorem stop_capture_safe_witness:
  "snd (stop_capture (device []) (running (Some [[9]]))) = init 0 640 480 \<and>
   fst (stop_capture (device []) (running (Some [[9]]))) =
     \<lparr>opens = [True], feed = [], trace = [DevRelease]\<rparr> \<and>
   fst (get_motion (device [gray_frame [[7]]])
          (snd (stop_capture (device []) (running (Some [[9]]))))) =
     Inr (Some (gray_frame [[7]]), Some [[0]], 0)"
proof -
  note S = stop_capture_safe [of "device []" "running (Some [[9]])" "device [gray_frame [[7]]]"]
  have i: "(init 0 640 480)\<lparr>kernel := kernel (running (Some [[9]]))\<rparr> = init 0 640 480"
    by (simp add: init_def running_def)
  have c: "camera_index (running (Some [[9]])) = 0" "width (running (Some [[9]])) = 640"
    "height (running (Some [[9]])) = 480" by (simp_all add: running_def)
  from S have a: "snd (stop_capture (device []) (running (Some [[9]]))) = init 0 640 480"
    by (simp add: running_def init_def)
  from S have b: "fst (stop_capture (device []) (running (Some [[9]]))) =
     \<lparr>opens = [True], feed = [], trace = [DevRelease]\<rparr>"
    by (simp add: running_def device_def)
  from S have "get_motion (device [gray_frame [[7]]])
      (snd (stop_capture (device []) (running (Some [[9]])))) =
     get_motion (device [gray_frame [[7]]])
       ((init (camera_index (running (Some [[9]]))) (width (running (Some [[9]])))
          (height (running (Some [[9]]))))\<lparr>kernel := kernel (running (Some [[9]]))\<rparr>)"
    by blast
  then have "get_motion (device [gray_frame [[7]]])
      (snd (stop_capture (device []) (running (Some [[9]])))) =
     get_motion (device [gray_frame [[7]]]) (init 0 640 480)"
    by (simp only: c i)
  then have d: "fst (get_motion (device [gray_frame [[7]]])
          (snd (stop_capture (device []) (running (Some [[9]]))))) =
     Inr (Some (gray_frame [[7]]), Some [[0]], 0)"
    by (simp add: first_capture_7)
  from a b d show ?thesis by blast
qed

text \<open>
  C3. In the binarization step of \<open>get_motion\<close>, every pixel of the returned mask is 255
  where the absolute difference of the two processed frames exceeds 30 and 0 elsewhere:
  a difference of exactly 30 is not marked as changed (mask value 0) and a difference of
  31 is marked (mask value 255).
\<close>

theorem threshold_boundary:
  assumes "frame_read w s = Some frame" and "last_frame s = Some prev"
    and "fst (get_motion w s) = Inr (fr, Some mf, amount)"
    and "i < length mf" and "j < length (mf ! i)"
  shows "mf ! i ! j =
           (if 30 < absdiff_px (apply_kernel s frame None ! i ! j) (prev ! i ! j)
            then 255 else 0) \<and>
         (absdiff_px (apply_kernel s frame None ! i ! j) (prev ! i ! j) = 30 \<longrightarrow>
            mf ! i ! j = 0) \<and>
         (absdiff_px (apply_kernel s frame None ! i ! j) (prev ! i ! j) = 31 \<longrightarrow>
            mf ! i ! j = 255)"
proof -
  let ?p = "apply_kernel s frame None"
  have same: "shape ?p = shape prev"
  proof (rule ccontr)
    assume "shape ?p \<noteq> shape prev"
    then have "fst (get_motion w s) = Inl SizeMismatch"
      by (simp add: get_motion_read_ok(1) [OF assms(1)] assms(2) compare_frames_other_shape)
    with assms(3) show False by simp
  qed
  have pos: "0 < np_size ?p"
    using frame_read_nonempty [OF assms(1)] by (simp add: np_size_apply_kernel)
  from compare_frames_same_shape [OF same pos] obtain m where
    m: "compare_frames ?p (Some prev) =
          Inr (m, nearest_double (count_nonzero m * 100) (np_size m))"
       "m = threshold_BINARY (map2 (map2 absdiff_px) ?p prev) 30 255"
    by blast
  from assms(3) m(1) have mf: "mf = m"
    by (simp add: get_motion_read_ok(1) [OF assms(1)] assms(2))
  let ?d = "map2 (map2 absdiff_px) ?p prev"
  from same have rows: "map length ?p = map length prev" by (simp add: shape_def)
  have shd: "map length ?d = map length ?p" by (rule shape_map2_rows [OF rows])
  have "map length mf = map length ?d"
    using shape_threshold [of ?d 30 255] by (simp add: mf m(2) shape_def)
  with shd have shm: "map length mf = map length ?p" by simp
  then have lm: "length mf = length ?p" by (rule map_eq_imp_length_eq)
  from shm have "map length mf ! i = map length ?p ! i" by simp
  with assms(4) lm have lr: "length (mf ! i) = length (?p ! i)" by simp
  from shd have ld: "length ?d = length ?p" by (rule map_eq_imp_length_eq)
  from shd have "map length ?d ! i = map length ?p ! i" by simp
  with assms(4) lm ld have ldr: "length (?d ! i) = length (?p ! i)" by simp
  have i: "i < length ?p" using assms(4) lm by simp
  have j: "j < length (?p ! i)" using assms(5) lr by simp
  have "mf ! i ! j = (if 30 < ?d ! i ! j then 255 else 0)"
    unfolding mf m(2) using i j ld ldr by (intro nth_threshold) simp_all
  also have "?d ! i ! j = absdiff_px (?p ! i ! j) (prev ! i ! j)"
    by (rule nth_map2_rows [OF rows i j])
  finally have main: "mf ! i ! j =
      (if 30 < absdiff_px (?p ! i ! j) (prev ! i ! j) then 255 else 0)" .
  then show ?thesis by simp
qed

theorem threshold_boundary_witness:
  "frame_read (device [gray_frame [[132, 129]]]) (running (Some [[100, 100]])) =
     Some (gray_frame [[132, 129]]) \<and>
   last_frame (running (Some [[100, 100]])) = Some [[100, 100]] \<and>
   fst (get_motion (device [gray_frame [[132, 129]]]) (running (Some [[100, 100]]))) =
     Inr (Some (gray_frame [[132, 129]]), Some [[0, 255]], 50) \<and>
   absdiff_px (apply_kernel (running (Some [[100, 100]])) (gray_frame [[132, 129]]) None ! 0 ! 0)
     ([[100, 100]] ! 0 ! 0) = 30 \<and>
   absdiff_px (apply_kernel (running (Some [[100, 100]])) (gray_frame [[132, 129]]) None ! 0 ! 1)
     ([[100, 100]] ! 0 ! 1) = 31 \<and>
   [[0, 255 :: uint8]] ! 0 ! 0 = 0 \<and> [[0, 255 :: uint8]] ! 0 ! 1 = 255"
proof -
  let ?w = "device [gray_frame [[132, 129]]]"
  let ?s = "running (Some [[100, 100]])"
  let ?f = "gray_frame [[132, 129]]"
  have r: "frame_read ?w ?s = Some ?f"
    by (simp add: frame_read_running gray_frame_def)
  have l: "last_frame ?s = Some [[100, 100]]" by (simp add: running_def)
  have g: "fst (get_motion ?w ?s) = Inr (Some ?f, Some [[0, 255]], 50)"
    unfolding device_def by (rule capture_132_129)
  have d0: "absdiff_px (apply_kernel ?s ?f None ! 0 ! 0) ([[100, 100]] ! 0 ! 0) = 30"
    by (simp add: processed_132_129 absdiff_px_def)
  have d1: "absdiff_px (apply_kernel ?s ?f None ! 0 ! 1) ([[100, 100]] ! 0 ! 1) = 31"
    by (simp add: processed_132_129 absdiff_px_def)
  have i: "0 < length [[0, 255 :: uint8]]" by simp
  have j0: "0 < length ([[0, 255 :: uint8]] ! 0)" by simp
  have j1: "1 < length ([[0, 255 :: uint8]] ! 0)" by simp
  from threshold_boundary [OF r l g i j0] d0 have a: "[[0, 255 :: uint8]] ! 0 ! 0 = 0"
    by blast
  from threshold_boundary [OF r l g i j1] d1 have b: "[[0, 255 :: uint8]] ! 0 ! 1 = 255"
    by blast
  from r l g d0 d1 a b show ?thesis by blast
qed

text \<open>
  C5, as amended. End-to-end: for two consecutively captured 4 by 4 grayscale frames that
  differ in exactly 2 pixels by a delta of 50 (all other pixels identical), the second
  \<open>get_motion\<close> call returns the motion amount \<open>k * 100 / 16\<close>, where \<open>k\<close> is the
  number of pixels of the mask that are marked, and at most one pixel is marked: the
  amount is 0 or 6.25. The box blur spreads each delta over the neighbouring pixels, so
  the blurred difference exceeds 30 only where one kernel window reads the two changed
  pixels six times.
\<close>

theorem two_pixel_scenario:
  assumes "two_pixels_changed g1 g2 p q"
  shows "\<exists>mk. capture_twice (gray_frame g1) (gray_frame g2) =
           Inr (Some (gray_frame g2), Some mk, of_nat (count_nonzero mk * 100) / 16) \<and>
         count_nonzero mk \<le> 1 \<and>
         (amount_of (capture_twice (gray_frame g1) (gray_frame g2)) = Some 0 \<or>
          amount_of (capture_twice (gray_frame g1) (gray_frame g2)) = Some (25 / 4))"
proof -
  let ?box = "replicate 3 (replicate 3 (1 / 9 :: rat))"
  let ?P1 = "filter2D g1 ?box" and ?P2 = "filter2D g2 ?box"
  from assms have g1: "image4 g1" and g2: "image4 g2" and p: "p \<in> set positions4"
    and q: "q \<in> set positions4" and pq: "p \<noteq> q"
    by (simp_all add: two_pixels_changed_def)
  have s1: "shape ?P1 = [4, 4, 4, 4]" and s2: "shape ?P2 = [4, 4, 4, 4]"
    by (simp_all add: shape_filter2D image4_shape g1 g2)
  then have same: "shape ?P2 = shape ?P1" by simp
  have pos: "0 < np_size ?P2" by (simp add: np_size_shape s2)
  from compare_frames_same_shape [OF same pos] obtain mk where
    cf: "compare_frames ?P2 (Some ?P1) =
           Inr (mk, nearest_double (count_nonzero mk * 100) (np_size mk))"
    and mk: "mk = threshold_BINARY (map2 (map2 absdiff_px) ?P2 ?P1) 30 255"
    and sm: "shape mk = shape ?P2"
    by blast
  from sm s2 have sm4: "shape mk = [4, 4, 4, 4]" by simp
  then have m4: "image4 mk" by (rule shape_image4)
  have size: "np_size mk = 16" by (simp add: np_size_shape sm4)
  have "count_nonzero mk * 100 \<le> 16 * 100"
    using count_nonzero_le_size [of mk] size by simp
  also have "\<dots> < (2 :: nat) ^ 53" by simp
  finally have small: "count_nonzero mk * 100 < 2 ^ 53" .
  have "nearest_double (count_nonzero mk * 100) (2 ^ 4) = of_nat (count_nonzero mk * 100) / 2 ^ 4"
    by (rule nearest_double_pow2 [OF small]) simp
  then have exact: "nearest_double (count_nonzero mk * 100) 16 =
      of_nat (count_nonzero mk * 100) / 16"
    by simp
  have res: "capture_twice (gray_frame g1) (gray_frame g2) =
      Inr (Some (gray_frame g2), Some mk, of_nat (count_nonzero mk * 100) / 16)"
    by (simp add: capture_twice_eq [OF gray_frame_nonempty [OF g1] gray_frame_nonempty [OF g2]]
        blurred_gray_frame cf size exact)
  have marked: "6 \<le> length (filter (\<lambda>t. t = p \<or> t = q) (taps 4 4 i j))"
    if ij: "(i, j) \<in> set positions4" and nz: "mk ! i ! j \<noteq> 0" for i j
  proof (rule ccontr)
    assume "\<not> 6 \<le> length (filter (\<lambda>t. t = p \<or> t = q) (taps 4 4 i j))"
    then have few: "length (filter (\<lambda>t. t = p \<or> t = q) (taps 4 4 i j)) \<le> 5" by simp
    from ij have i: "i < 4" and j: "j < 4" by (simp_all add: positions4_set)
    have rows: "map length ?P2 = map length ?P1" using same by (simp add: shape_def)
    have i2: "i < length ?P2" and j2: "j < length (?P2 ! i)"
      using shape_image4 [OF s2] i j by (simp_all add: image4_def)
    let ?d = "map2 (map2 absdiff_px) ?P2 ?P1"
    have shd: "map length ?d = map length ?P2" by (rule shape_map2_rows [OF rows])
    then have d4: "image4 ?d" using s2 by (intro shape_image4) (simp add: shape_def)
    have id: "i < length ?d" and jd: "j < length (?d ! i)"
      using d4 i j by (simp_all add: image4_def)
    have "mk ! i ! j = (if 30 < ?d ! i ! j then 255 else 0)"
      unfolding mk by (rule nth_threshold [OF id jd])
    also have "?d ! i ! j = absdiff_px (?P2 ! i ! j) (?P1 ! i ! j)"
      by (rule nth_map2_rows [OF rows i2 j2])
    finally have "mk ! i ! j = 0"
      using blurred_pixel_unmarked [OF assms ij few] by simp
    with nz show False by simp
  qed
  have "count_nonzero mk = length (filter (\<lambda>v. v \<noteq> 0) (map (\<lambda>(i, j). mk ! i ! j) positions4))"
    by (simp only: count_nonzero_def concat_positions4 [OF m4])
  also have "\<dots> = length (filter (\<lambda>(i, j). mk ! i ! j \<noteq> 0) positions4)"
    by (simp add: filter_map comp_def case_prod_unfold)
  also have "\<dots> \<le> length (heavy p q)"
    unfolding heavy_def by (rule filter_length_mono) (auto dest: marked)
  also have "\<dots> \<le> 1" using heavy_all p q pq by blast
  finally have le: "count_nonzero mk \<le> 1" .
  then have "count_nonzero mk = 0 \<or> count_nonzero mk = 1" by linarith
  then have "amount_of (capture_twice (gray_frame g1) (gray_frame g2)) = Some 0 \<or>
          amount_of (capture_twice (gray_frame g1) (gray_frame g2)) = Some (25 / 4)"
    by (auto simp: res amount_of_def)
  with res le show ?thesis by blast
qed


theorem two_pixel_scenario_witness:
  "two_pixels_changed
     [[100, 100, 100, 100], [100, 100, 100, 100], [100, 100, 100, 100], [100, 100, 100, 100]]
     [[100, 100, 100, 100], [150, 150, 100, 100], [100, 100, 100, 100], [100, 100, 100, 100]]
     (1, 0) (1, 1) \<and>
   capture_twice
     (gray_frame [[100, 100, 100, 100], [100, 100, 100, 100],
                  [100, 100, 100, 100], [100, 100, 100, 100]])
     (gray_frame [[100, 100, 100, 100], [150, 150, 100, 100],
                  [100, 100, 100, 100], [100, 100, 100, 100]]) =
     Inr (Some (gray_frame [[100, 100, 100, 100], [150, 150, 100, 100],
                            [100, 100, 100, 100], [100, 100, 100, 100]]),
          Some [[255, 0, 0, 0], [0, 0, 0, 0], [0, 0, 0, 0], [0, 0, 0, 0]], 25 / 4) \<and>
   count_nonzero [[255, 0, 0, 0], [0, 0, 0, 0], [0, 0, 0, 0], [0, 0, 0, 0]] \<le> 1"
proof -
  from two_pixel_scenario [OF changed_adjacent]
  have "count_nonzero [[255, 0, 0, 0], [0, 0, 0, 0], [0, 0, 0, 0], [0, 0, 0, 0]] \<le> 1"
    by (simp add: capture_adjacent)
  with changed_adjacent capture_adjacent show ?thesis by blast
qed

text \<open>
  C5, as stated, fails: with the two changed pixels in opposite corners no blurred
  difference exceeds 30, and the motion amount is 0, not 12.5.
\<close>

theorem two_pixel_scenario_counterexample:
  "two_pixels_changed
     [[100, 100, 100, 100], [100, 100, 100, 100], [100, 100, 100, 100], [100, 100, 100, 100]]
     [[150, 100, 100, 100], [100, 100, 100, 100], [100, 100, 100, 100], [100, 100, 100, 150]]
     (0, 0) (3, 3) \<and>
   capture_twice
     (gray_frame [[100, 100, 100, 100], [100, 100, 100, 100],
                  [100, 100, 100, 100], [100, 100, 100, 100]])
     (gray_frame [[150, 100, 100, 100], [100, 100, 100, 100],
                  [100, 100, 100, 100], [100, 100, 100, 150]]) =
     Inr (Some (gray_frame [[150, 100, 100, 100], [100, 100, 100, 100],
                            [100, 100, 100, 100], [100, 100, 100, 150]]),
          Some [[0, 0, 0, 0], [0, 0, 0, 0], [0, 0, 0, 0], [0, 0, 0, 0]], 0) \<and>
   amount_of (capture_twice
     (gray_frame [[100, 100, 100, 100], [100, 100, 100, 100],
                  [100, 100, 100, 100], [100, 100, 100, 100]])
     (gray_frame [[150, 100, 100, 100], [100, 100, 100, 100],
                  [100, 100, 100, 100], [100, 100, 100, 150]])) \<noteq> Some (25 / 2)"
  using changed_corners capture_corners by (simp add: amount_of_def)

end
